theory Spec2Isabelle
  imports Main "HOL-Library.Multiset"
begin

section \<open>Python string operations used by the scheduling engine\<close>

text \<open>
  The engine (\<^verbatim>\<open>tools/solver_runner.py\<close>) and the dashboards' validator and local
  improvement (\<^verbatim>\<open>UI/teacher_dashboard.py\<close>, \<^verbatim>\<open>UI/admin_dashboard.py\<close>) work on Python
  \<^verbatim>\<open>str\<close> values. They are modelled as \<^typ>\<open>string\<close> restricted to ASCII text: case
  mapping touches the 26 letters only, and whitespace is the ASCII whitespace of
  \<^verbatim>\<open>str.isspace\<close> (tab, LF, VT, FF, CR, FS, GS, RS, US and space).
\<close>

definition is_space :: "char \<Rightarrow> bool" where
  "is_space c = (c \<in> set [CHR 0x09, CHR 0x0A, CHR 0x0B, CHR 0x0C, CHR 0x0D,
                           CHR 0x1C, CHR 0x1D, CHR 0x1E, CHR 0x1F, CHR 0x20])"

definition upper_letters :: string where
  "upper_letters = ''ABCDEFGHIJKLMNOPQRSTUVWXYZ''"

definition lower_letters :: string where
  "lower_letters = ''abcdefghijklmnopqrstuvwxyz''"

definition lower_char :: "char \<Rightarrow> char" where
  "lower_char c = (case map_of (zip upper_letters lower_letters) c of Some l \<Rightarrow> l | None \<Rightarrow> c)"

definition upper_char :: "char \<Rightarrow> char" where
  "upper_char c = (case map_of (zip lower_letters upper_letters) c of Some u \<Rightarrow> u | None \<Rightarrow> c)"

definition is_alpha :: "char \<Rightarrow> bool" where
  "is_alpha c = (c \<in> set upper_letters \<or> c \<in> set lower_letters)"

text \<open>\<^verbatim>\<open>s.lower()\<close>, \<^verbatim>\<open>s.upper()\<close>, \<^verbatim>\<open>s.strip()\<close>.\<close>

definition py_lower :: "string \<Rightarrow> string" where
  "py_lower s = map lower_char s"

definition py_upper :: "string \<Rightarrow> string" where
  "py_upper s = map upper_char s"

definition py_strip :: "string \<Rightarrow> string" where
  "py_strip s = rev (dropWhile is_space (rev (dropWhile is_space s)))"

text \<open>\<^verbatim>\<open>s.capitalize()\<close>: first character upper-cased, the rest lower-cased.\<close>

definition py_capitalize :: "string \<Rightarrow> string" where
  "py_capitalize s = (case s of [] \<Rightarrow> [] | c # cs \<Rightarrow> upper_char c # map lower_char cs)"

text \<open>\<^verbatim>\<open>s.title()\<close>: a letter that follows a letter is lower-cased, any other letter is
  upper-cased; the flag is \<^emph>\<open>the previous character is cased\<close>.\<close>

fun title_aux :: "bool \<Rightarrow> string \<Rightarrow> string" where
  "title_aux pc [] = []"
| "title_aux pc (c # cs) =
     (if is_alpha c then (if pc then lower_char c else upper_char c) # title_aux True cs
      else c # title_aux False cs)"

definition py_title :: "string \<Rightarrow> string" where
  "py_title s = title_aux False s"

text \<open>\<^verbatim>\<open>s.split()\<close> (no separator: runs of whitespace separate the words; the word being
  read is accumulated in reverse) and \<^verbatim>\<open>sep.join(words)\<close>.\<close>

fun split_ws_aux :: "string \<Rightarrow> string \<Rightarrow> string list" where
  "split_ws_aux cur [] = (if cur = [] then [] else [rev cur])"
| "split_ws_aux cur (c # cs) =
     (if is_space c then (if cur = [] then split_ws_aux [] cs else rev cur # split_ws_aux [] cs)
      else split_ws_aux (c # cur) cs)"

definition py_split :: "string \<Rightarrow> string list" where
  "py_split s = split_ws_aux [] s"

fun py_join :: "string \<Rightarrow> string list \<Rightarrow> string" where
  "py_join sep [] = []"
| "py_join sep [w] = w"
| "py_join sep (w # ws) = w @ sep @ py_join sep ws"

text \<open>\<^verbatim>\<open>s.startswith(t)\<close>, \<^verbatim>\<open>s.endswith(t)\<close> and the substring test \<^verbatim>\<open>t in s\<close>.\<close>

fun startswith :: "string \<Rightarrow> string \<Rightarrow> bool" where
  "startswith s [] = True"
| "startswith [] (t # ts) = False"
| "startswith (c # cs) (t # ts) = (c = t \<and> startswith cs ts)"

definition endswith :: "string \<Rightarrow> string \<Rightarrow> bool" where
  "endswith s t = startswith (rev s) (rev t)"

fun py_in :: "string \<Rightarrow> string \<Rightarrow> bool" where
  "py_in t [] = (t = [])"
| "py_in t (c # cs) = (startswith (c # cs) t \<or> py_in t cs)"

text \<open>\<^verbatim>\<open>s.replace(c, r)\<close> for a one-character pattern \<^verbatim>\<open>c\<close>; \<^verbatim>\<open>s.lstrip("P")\<close>;
  \<^verbatim>\<open>s.split(sep)[0]\<close> for a non-empty separator; \<^verbatim>\<open>a, b = s.split("-", 1)\<close>.\<close>

definition py_replace :: "char \<Rightarrow> string \<Rightarrow> string \<Rightarrow> string" where
  "py_replace c r s = concat (map (\<lambda>x. if x = c then r else [x]) s)"

definition lstrip_char :: "char \<Rightarrow> string \<Rightarrow> string" where
  "lstrip_char c s = dropWhile (\<lambda>x. x = c) s"

fun before_sep :: "string \<Rightarrow> string \<Rightarrow> string" where
  "before_sep sep [] = []"
| "before_sep sep (c # cs) = (if startswith (c # cs) sep then [] else c # before_sep sep cs)"

definition split_dash :: "string \<Rightarrow> string \<times> string" where
  "split_dash s = (takeWhile (\<lambda>c. c \<noteq> CHR ''-'') s, tl (dropWhile (\<lambda>c. c \<noteq> CHR ''-'') s))"

text \<open>
  \<^verbatim>\<open>int(s)\<close> on ASCII text: optional surrounding whitespace (for \<^verbatim>\<open>int\<close> that is space,
  tab, LF, VT, FF, CR), an optional sign, then decimal digits in which single underscores
  may separate digits. \<open>None\<close> is Python's \<^verbatim>\<open>ValueError\<close>. (The interpreter's limit on
  the number of digits of one literal is not modelled.)
\<close>

definition is_int_space :: "char \<Rightarrow> bool" where
  "is_int_space c = (c \<in> set [CHR 0x09, CHR 0x0A, CHR 0x0B, CHR 0x0C, CHR 0x0D, CHR 0x20])"

definition is_digit :: "char \<Rightarrow> bool" where
  "is_digit c = (c \<in> set ''0123456789'')"

definition digit_val :: "char \<Rightarrow> int" where
  "digit_val c = (case map_of (zip ''0123456789'' [0, 1, 2, 3, 4, 5, 6, 7, 8, 9]) c of
                    Some d \<Rightarrow> d | None \<Rightarrow> 0)"

fun int_digits :: "bool \<Rightarrow> int \<Rightarrow> string \<Rightarrow> int option" where
  "int_digits pd acc [] = (if pd then Some acc else None)"
| "int_digits pd acc (c # cs) =
     (if is_digit c then int_digits True (acc * 10 + digit_val c) cs
      else if c = CHR ''_'' \<and> pd then int_digits False acc cs
      else None)"

definition py_int :: "string \<Rightarrow> int option" where
  "py_int s =
     (case rev (dropWhile is_int_space (rev (dropWhile is_int_space s))) of
        [] \<Rightarrow> None
      | c # cs \<Rightarrow>
          if c = CHR ''-'' then map_option uminus (int_digits False 0 cs)
          else if c = CHR ''+'' then int_digits False 0 cs
          else int_digits False 0 (c # cs))"

text \<open>\<^verbatim>\<open>str(n)\<close> for an integer, as the f-string \<^verbatim>\<open>f"C{cid}"\<close> prints it.\<close>

fun show_nat :: "nat \<Rightarrow> string" where
  "show_nat n =
     (if n < 10 then [''0123456789'' ! n]
      else show_nat (n div 10) @ [''0123456789'' ! (n mod 10)])"

definition show_int :: "int \<Rightarrow> string" where
  "show_int i = (if i < 0 then CHR ''-'' # show_nat (nat (- i)) else show_nat (nat i))"

text \<open>\<^verbatim>\<open>v or d\<close> where \<^verbatim>\<open>v = dict.get(key)\<close> is a string or \<^verbatim>\<open>None\<close>: a missing, \<^verbatim>\<open>None\<close> or
  empty value gives the default.\<close>

definition str_or :: "string option \<Rightarrow> string \<Rightarrow> string" where
  "str_or v d = (case v of None \<Rightarrow> d | Some s \<Rightarrow> if s = [] then d else s)"

section \<open>Data model of a request\<close>

text \<open>
  Courses and constraints are JSON objects read with \<^verbatim>\<open>dict.get\<close>; a field that is absent
  or \<^verbatim>\<open>null\<close> is \<open>None\<close>. A dictionary is an association list in insertion order with
  distinct keys; a grid maps each day name to its row of cells.
\<close>

record course =
  course_id :: "int option"
  course_name :: "string option"
  course_code :: "string option"
  course_credits :: "int option"
  course_section :: "string option"
  course_teacher_id :: "int option"

record constraint =
  cons_course_name :: "string option"
  cons_section :: "string option"
  cons_day :: "string option"
  cons_period_range :: "string option"
  cons_periods :: "string option"
  cons_type :: "string option"
  cons_mode :: "string option"

type_synonym grid = "(string \<times> string list) list"

definition DAYS :: "string list" where
  "DAYS = [''Monday'', ''Tuesday'', ''Wednesday'', ''Thursday'', ''Friday'']"

text \<open>\<^verbatim>\<open>d[k] = v\<close> on an insertion-ordered dictionary: an existing key keeps its place.\<close>

fun dict_set :: "'k \<Rightarrow> 'v \<Rightarrow> ('k \<times> 'v) list \<Rightarrow> ('k \<times> 'v) list" where
  "dict_set k v [] = [(k, v)]"
| "dict_set k v ((k', v') # m) = (if k' = k then (k, v) # m else (k', v') # dict_set k v m)"

section \<open>solver\_runner: text normalisation and period tokens\<close>

definition normalize_text :: "string \<Rightarrow> string" where
  "normalize_text s = py_lower (py_strip (py_join '' '' (py_split s)))"

text \<open>\<^verbatim>\<open>_parse_period_token\<close>: 0-based start and end; every failure of \<^verbatim>\<open>int\<close> and the
  empty token give \<open>(0, 0)\<close>.\<close>

definition parse_period_token :: "string \<Rightarrow> int \<times> int" where
  "parse_period_token tok =
     (let token = py_upper (py_strip tok) in
      if token = [] then (0, 0)
      else if CHR ''-'' \<in> set token then
        (let (a, b) = split_dash token in
         case py_int (py_replace (CHR ''P'') [] a) of
           None \<Rightarrow> (0, 0)
         | Some s \<Rightarrow>
             (case py_int (py_replace (CHR ''P'') [] b) of
                None \<Rightarrow> (0, 0)
              | Some e \<Rightarrow> (s - 1, e - 1)))
      else
        (case py_int (py_replace (CHR ''P'') [] token) of
           None \<Rightarrow> (0, 0)
         | Some i \<Rightarrow> (i - 1, i - 1)))"

section \<open>solver\_runner: the constraint matcher\<close>

text \<open>
  \<^verbatim>\<open>_match_constraint_to_cids\<close>. Each of the three loops runs over
  \<^verbatim>\<open>cid_to_course.items()\<close> and appends to the list \<^verbatim>\<open>matches\<close>; after each loop a
  non-empty \<^verbatim>\<open>matches\<close> is returned.
\<close>

fun exact_loop :: "string \<Rightarrow> string \<Rightarrow> (int \<times> course) list \<Rightarrow> int list \<Rightarrow> int list" where
  "exact_loop target csec [] matches = matches"
| "exact_loop target csec ((cid, c) # items) matches =
     (let name = normalize_text (str_or (course_name c) '''');
          code = normalize_text (str_or (course_code c) '''')
      in if name = target \<or> code = target then
           (let c_section = py_strip (str_or (course_section c) ''ALL'') in
            if py_upper csec \<noteq> ''ALL'' \<and> c_section \<noteq> csec
            then exact_loop target csec items matches
            else exact_loop target csec items (matches @ [cid]))
         else exact_loop target csec items matches)"

fun token_loop :: "string list \<Rightarrow> string \<Rightarrow> (int \<times> course) list \<Rightarrow> int list \<Rightarrow> int list" where
  "token_loop target_tokens csec [] matches = matches"
| "token_loop target_tokens csec ((cid, c) # items) matches =
     (let name = normalize_text (str_or (course_name c) '''');
          code = normalize_text (str_or (course_code c) '''');
          c_section = py_strip (str_or (course_section c) ''ALL'')
      in if py_upper csec \<noteq> ''ALL'' \<and> c_section \<noteq> csec
         then token_loop target_tokens csec items matches
         else if list_ex (\<lambda>tk. tk \<noteq> [] \<and>
                    (py_in tk name \<or> py_in tk code \<or> py_in name tk \<or> py_in code tk))
                  target_tokens
         then token_loop target_tokens csec items (matches @ [cid])
         else token_loop target_tokens csec items matches)"

fun affix_loop :: "string \<Rightarrow> string \<Rightarrow> (int \<times> course) list \<Rightarrow> int list \<Rightarrow> int list" where
  "affix_loop target csec [] matches = matches"
| "affix_loop target csec ((cid, c) # items) matches =
     (let name = normalize_text (str_or (course_name c) '''');
          code = normalize_text (str_or (course_code c) '''');
          c_section = py_strip (str_or (course_section c) ''ALL'')
      in if py_upper csec \<noteq> ''ALL'' \<and> c_section \<noteq> csec
         then affix_loop target csec items matches
         else if startswith name target \<or> endswith name target \<or>
                 startswith code target \<or> endswith code target
         then affix_loop target csec items (matches @ [cid])
         else affix_loop target csec items matches)"

definition match_constraint_to_cids :: "constraint \<Rightarrow> (int \<times> course) list \<Rightarrow> int list" where
  "match_constraint_to_cids cons cid_to_course =
     (let cname_raw = py_strip (str_or (cons_course_name cons) '''');
          csec = py_strip (str_or (cons_section cons) ''ALL'');
          target = normalize_text cname_raw
      in if target = [] then []
         else
           (let matches = exact_loop target csec cid_to_course [] in
            if matches \<noteq> [] then matches
            else
              (let target_tokens =
                     filter (\<lambda>t. t \<noteq> [])
                       (py_split (py_replace (CHR ''-'') '' '' (py_replace (CHR ''/'') '' '' target)));
                   matches = token_loop target_tokens csec cid_to_course matches
               in if matches \<noteq> [] then matches
                  else
                    (let matches = affix_loop target csec cid_to_course matches
                     in if matches \<noteq> [] then matches else []))))"

section \<open>solver\_runner: course identifiers, lunch index and allowed periods\<close>

text \<open>
  The first loop of both solvers: a course without \<^verbatim>\<open>id\<close> receives the next synthetic
  identifier \<open>-1, -2, \<dots>\<close>. \<^verbatim>\<open>cid_list\<close> keeps every identifier in input order,
  \<^verbatim>\<open>cid_to_course\<close> is the dictionary (a repeated identifier keeps its first position and
  its last course). The greedy solver builds only the dictionary.
\<close>

fun assign_ids :: "course list \<Rightarrow> int \<Rightarrow> int list \<times> (int \<times> course) list \<Rightarrow>
    int list \<times> (int \<times> course) list" where
  "assign_ids [] next_synthetic (cid_list, cid_to_course) = (cid_list, cid_to_course)"
| "assign_ids (c # cs) next_synthetic (cid_list, cid_to_course) =
     (case course_id c of
        None \<Rightarrow> assign_ids cs (next_synthetic - 1)
                  (cid_list @ [next_synthetic], dict_set next_synthetic c cid_to_course)
      | Some cid \<Rightarrow> assign_ids cs next_synthetic
                  (cid_list @ [cid], dict_set cid c cid_to_course))"

definition cid_list_of :: "course list \<Rightarrow> int list" where
  "cid_list_of courses = fst (assign_ids courses (- 1) ([], []))"

definition cid_to_course_of :: "course list \<Rightarrow> (int \<times> course) list" where
  "cid_to_course_of courses = snd (assign_ids courses (- 1) ([], []))"

text \<open>\<^verbatim>\<open>lunch_idx = lunch - 1 if lunch and 1 <= lunch <= P else None\<close>.\<close>

definition lunch_index :: "int \<Rightarrow> int \<Rightarrow> nat option" where
  "lunch_index lunch P =
     (if lunch \<noteq> 0 \<and> 1 \<le> lunch \<and> lunch \<le> P then Some (nat (lunch - 1)) else None)"

text \<open>\<^verbatim>\<open>[p for p in range(s, e + 1) if 0 <= p < P and (lunch_idx is None or p != lunch_idx)]\<close>.\<close>

definition period_indices :: "int \<Rightarrow> int \<Rightarrow> int \<Rightarrow> nat option \<Rightarrow> nat list" where
  "period_indices s e P lunch_idx =
     map nat (filter (\<lambda>p. 0 \<le> p \<and> p < P \<and>
                           (case lunch_idx of None \<Rightarrow> True | Some l \<Rightarrow> p \<noteq> int l)) [s..e])"

section \<open>solver\_runner: the greedy fallback solver\<close>

text \<open>Cell access \<^verbatim>\<open>grid[d][p]\<close> and assignment \<^verbatim>\<open>grid[d][p] = v\<close>.\<close>

definition grid_get :: "grid \<Rightarrow> string \<Rightarrow> nat \<Rightarrow> string" where
  "grid_get g d p = (case map_of g d of None \<Rightarrow> [] | Some row \<Rightarrow> row ! p)"

definition grid_set :: "grid \<Rightarrow> string \<Rightarrow> nat \<Rightarrow> string \<Rightarrow> grid" where
  "grid_set g d p v = map (\<lambda>(d', row). if d' = d then (d', row[p := v]) else (d', row)) g"

text \<open>The placement loops over \<^verbatim>\<open>period_indices\<close>, on the row \<^verbatim>\<open>grid[day]\<close>:
  the first empty cell receives the label (with the flag \<^verbatim>\<open>placed\<close>), or every empty
  cell does.\<close>

fun place_first_empty :: "string list \<Rightarrow> nat list \<Rightarrow> string \<Rightarrow> string list \<times> bool" where
  "place_first_empty row [] label = (row, False)"
| "place_first_empty row (p # ps) label =
     (if row ! p = [] then (row[p := label], True) else place_first_empty row ps label)"

fun fill_empty :: "string list \<Rightarrow> nat list \<Rightarrow> string \<Rightarrow> string list" where
  "fill_empty row [] label = row"
| "fill_empty row (p # ps) label =
     fill_empty (if row ! p = [] then row[p := label] else row) ps label"

text \<open>First empty cell, else overwrite the first allowed cell: the unmatched branch and
  the Hard branch.\<close>

definition place_one :: "string list \<Rightarrow> nat list \<Rightarrow> string \<Rightarrow> string list" where
  "place_one row idxs label =
     (case place_first_empty row idxs label of
        (row', True) \<Rightarrow> row'
      | (row', False) \<Rightarrow> (case idxs of [] \<Rightarrow> row | p # _ \<Rightarrow> row[p := label]))"

definition place_in_row ::
    "(int \<times> course) list \<Rightarrow> constraint \<Rightarrow> string \<Rightarrow> nat list \<Rightarrow> string list \<Rightarrow> string list" where
  "place_in_row cid_to_course cons ctype idxs row =
     (case match_constraint_to_cids cons cid_to_course of
        [] \<Rightarrow> place_one row idxs (str_or (cons_course_name cons) [])
      | rep_cid # _ \<Rightarrow>
          (case map_of cid_to_course rep_cid of
             None \<Rightarrow> row
           | Some c \<Rightarrow>
               (let label = str_or (course_name c)
                              (str_or (course_code c) (''C'' @ show_int rep_cid))
                in if ctype = ''exact'' then fill_empty row idxs label
                   else place_one row idxs label)))"

text \<open>One iteration of the loop over \<^verbatim>\<open>constraints\<close>.\<close>

definition greedy_place ::
    "(int \<times> course) list \<Rightarrow> int \<Rightarrow> nat option \<Rightarrow> constraint \<Rightarrow> grid \<Rightarrow> grid" where
  "greedy_place cid_to_course P lunch_idx cons g =
     (let day = py_capitalize (py_strip (str_or (cons_day cons) []));
          pr = str_or (cons_period_range cons) (str_or (cons_periods cons) []);
          ctype = py_lower (py_strip (str_or (cons_type cons) ''Hard''))
      in if day = [] \<or> pr = [] then g
         else if day \<notin> set DAYS then g
         else
           (let (s0, e0) = parse_period_token pr;
                s = (if s0 < 0 then 0 else s0);
                e = (if e0 \<ge> P then P - 1 else e0);
                idxs = period_indices s e P lunch_idx
            in if idxs = [] then g
               else map (\<lambda>(d, row). if d = day
                                       then (d, place_in_row cid_to_course cons ctype idxs row)
                                       else (d, row)) g))"

text \<open>
  \<^verbatim>\<open>random.shuffle\<close> (Fisher-Yates, from the last position down to 1); \<open>rnd i\<close> is the
  random draw made at position \<open>i\<close>, reduced to \<open>0..i\<close>.
\<close>

definition shuffle :: "(nat \<Rightarrow> nat) \<Rightarrow> 'a list \<Rightarrow> 'a list" where
  "shuffle rnd xs =
     fold (\<lambda>i ys. let j = rnd i mod (i + 1) in ys[i := ys ! j, j := ys ! i])
          (rev [1..<length xs]) xs"

definition course_label :: "course \<Rightarrow> string" where
  "course_label c =
     str_or (course_name c) (str_or (course_code c)
       (''C'' @ (case course_id c of None \<Rightarrow> ''None'' | Some i \<Rightarrow> show_int i)))"

definition filler_labels :: "course list \<Rightarrow> string list" where
  "filler_labels courses = (if courses = [] then [''Free''] else map course_label courses)"

text \<open>The filler: periods outermost, days innermost, with the running counter \<^verbatim>\<open>idx\<close>.\<close>

definition fill_cell :: "nat option \<Rightarrow> string list \<Rightarrow> nat \<Rightarrow> string \<Rightarrow> grid \<times> nat \<Rightarrow> grid \<times> nat" where
  "fill_cell lunch_idx shuffled p d st =
     (case st of (g, idx) \<Rightarrow>
        if lunch_idx = Some p then (grid_set g d p ''LUNCH'', idx)
        else if grid_get g d p = [] then
          (grid_set g d p (shuffled ! (idx mod length shuffled)), idx + 1)
        else (g, idx))"

definition fill_grid :: "nat option \<Rightarrow> string list \<Rightarrow> int \<Rightarrow> grid \<Rightarrow> grid" where
  "fill_grid lunch_idx shuffled P g =
     fst (fold (\<lambda>p st. fold (fill_cell lunch_idx shuffled p) DAYS st) [0..<nat P] (g, 0))"

definition empty_grid :: "int \<Rightarrow> grid" where
  "empty_grid P = map (\<lambda>d. (d, replicate (nat P) [])) DAYS"

text \<open>\<^verbatim>\<open>greedy_csp_solver\<close>; its \<^verbatim>\<open>time_limit\<close> argument is not read by the code. The
  random source of the shuffle is the argument \<open>rnd\<close>.\<close>

definition greedy_csp_solver ::
    "(nat \<Rightarrow> nat) \<Rightarrow> course list \<Rightarrow> constraint list \<Rightarrow> int \<Rightarrow> int \<Rightarrow> grid" where
  "greedy_csp_solver rnd courses constraints P lunch =
     (let cid_to_course = cid_to_course_of courses;
          lunch_idx = lunch_index lunch P;
          g = fold (greedy_place cid_to_course P lunch_idx) constraints (empty_grid P);
          shuffled = shuffle rnd (filler_labels courses)
      in fill_grid lunch_idx shuffled P g)"

section \<open>solver\_runner: the model of the exact solver\<close>

text \<open>
  \<^verbatim>\<open>run_ortools_solver\<close> creates one Boolean variable \<^verbatim>\<open>x[(cid, d, p)]\<close> per course
  identifier, day index and period, and adds linear constraints over sums of variables
  with \<^verbatim>\<open>model.Add\<close>. A variable is its key; the model is the list of added constraints,
  in the order of the calls. CP-SAT itself is a library outside the repository: its
  answer (a status and the value of every variable) is the argument \<open>solve\<close> of
  \<open>run_ortools_solver\<close> below.
\<close>

type_synonym var = "int \<times> nat \<times> nat"

datatype cmp = GE | LE | EQ

datatype lincon = Lin "var list" cmp int

type_synonym cp_model = "lincon list"

datatype status = UNKNOWN | MODEL_INVALID | FEASIBLE | INFEASIBLE | OPTIMAL

type_synonym assignment = "var \<Rightarrow> bool"

definition var_sum :: "assignment \<Rightarrow> var list \<Rightarrow> int" where
  "var_sum a vs = int (length (filter a vs))"

fun holds :: "assignment \<Rightarrow> lincon \<Rightarrow> bool" where
  "holds a (Lin vs GE k) = (var_sum a vs \<ge> k)"
| "holds a (Lin vs LE k) = (var_sum a vs \<le> k)"
| "holds a (Lin vs EQ k) = (var_sum a vs = k)"

definition satisfies :: "assignment \<Rightarrow> cp_model \<Rightarrow> bool" where
  "satisfies a m = list_all (holds a) m"

text \<open>\<^verbatim>\<open>defaultdict(list)\<close>: \<^verbatim>\<open>m[k].append(cid)\<close>.\<close>

fun group_add :: "'k \<Rightarrow> int \<Rightarrow> ('k \<times> int list) list \<Rightarrow> ('k \<times> int list) list" where
  "group_add k cid [] = [(k, [cid])]"
| "group_add k cid ((k', cids) # m) =
     (if k' = k then (k', cids @ [cid]) # m else (k', cids) # group_add k cid m)"

definition teacher_map :: "(int \<times> course) list \<Rightarrow> (int option \<times> int list) list" where
  "teacher_map cid_to_course =
     fold (\<lambda>(cid, c) m. group_add (course_teacher_id c) cid m) cid_to_course []"

definition section_map :: "(int \<times> course) list \<Rightarrow> (string \<times> int list) list" where
  "section_map cid_to_course =
     fold (\<lambda>(cid, c) m. group_add (str_or (course_section c) ''A'') cid m) cid_to_course []"

definition day_range :: "nat list" where
  "day_range = [0..<length DAYS]"

text \<open>The rules added for the courses: at least one slot in the week, at most one slot
  a day, teacher conflicts, section conflicts, the lunch block.\<close>

definition min_slot_rules :: "int list \<Rightarrow> int \<Rightarrow> cp_model" where
  "min_slot_rules cid_list P =
     map (\<lambda>cid. Lin (concat (map (\<lambda>d. map (\<lambda>p. (cid, d, p)) [0..<nat P]) day_range)) GE 1)
         cid_list"

definition daily_rules :: "int list \<Rightarrow> int \<Rightarrow> cp_model" where
  "daily_rules cid_list P =
     concat (map (\<lambda>cid. map (\<lambda>d. Lin (map (\<lambda>p. (cid, d, p)) [0..<nat P]) LE 1) day_range)
                 cid_list)"

definition slot_rules :: "int list \<Rightarrow> int \<Rightarrow> cp_model" where
  "slot_rules cids P =
     concat (map (\<lambda>d. map (\<lambda>p. Lin (map (\<lambda>cid. (cid, d, p)) cids) LE 1) [0..<nat P]) day_range)"

definition teacher_rules :: "(int \<times> course) list \<Rightarrow> int \<Rightarrow> cp_model" where
  "teacher_rules cid_to_course P =
     concat (map (\<lambda>(t, cids). if t = None then [] else slot_rules cids P)
                 (teacher_map cid_to_course))"

definition section_rules :: "(int \<times> course) list \<Rightarrow> int \<Rightarrow> cp_model" where
  "section_rules cid_to_course P =
     concat (map (\<lambda>(sec, cids). slot_rules cids P) (section_map cid_to_course))"

definition lunch_rules :: "int list \<Rightarrow> nat option \<Rightarrow> cp_model" where
  "lunch_rules cid_list lunch_idx =
     (case lunch_idx of
        None \<Rightarrow> []
      | Some l \<Rightarrow> concat (map (\<lambda>cid. map (\<lambda>d. Lin [(cid, d, l)] EQ 0) day_range) cid_list))"

text \<open>\<^verbatim>\<open>DAYS.index(day)\<close> for a day of \<open>DAYS\<close>.\<close>

fun index_of :: "'a \<Rightarrow> 'a list \<Rightarrow> nat" where
  "index_of x [] = 0"
| "index_of x (y # ys) = (if y = x then 0 else Suc (index_of x ys))"

text \<open>The day a constraint names, as the exact path reads it: \<^verbatim>\<open>capitalize()\<close>, and
  \<^verbatim>\<open>title()\<close> when that is no weekday; \<open>None\<close> is the \<^verbatim>\<open>continue\<close>.\<close>

definition ortools_day :: "string \<Rightarrow> string option" where
  "ortools_day day_raw =
     (let day = py_capitalize (py_strip day_raw) in
      if day \<in> set DAYS then Some day
      else (let day = py_title (py_strip day_raw) in
            if day \<in> set DAYS then Some day else None))"

definition enforce_exact :: "constraint \<Rightarrow> bool" where
  "enforce_exact cons =
     (py_lower (py_strip (str_or (cons_type cons) ''Hard'')) = ''exact'' \<or>
      (str_or (cons_mode cons) [] \<noteq> [] \<and> py_in ''exact'' (py_lower (str_or (cons_mode cons) []))))"

text \<open>One iteration of the loop over \<^verbatim>\<open>constraints\<close>: the rule it adds, or \<open>None\<close> when
  the iteration ends in \<^verbatim>\<open>continue\<close>.\<close>

definition encode_constraint ::
    "(int \<times> course) list \<Rightarrow> int \<Rightarrow> nat option \<Rightarrow> constraint \<Rightarrow> lincon option" where
  "encode_constraint cid_to_course P lunch_idx cons =
     (if str_or (cons_course_name cons) [] = [] then None
      else
        (let day_raw = py_strip (str_or (cons_day cons) []);
             pr = py_strip (str_or (cons_period_range cons) (str_or (cons_periods cons) []))
         in if day_raw = [] \<or> pr = [] then None
            else
              (case ortools_day day_raw of
                 None \<Rightarrow> None
               | Some day \<Rightarrow>
                   (let didx = index_of day DAYS;
                        (s0, e0) = parse_period_token pr;
                        s = max 0 s0;
                        e = min (P - 1) e0
                    in if s > e then None
                       else
                         (let matching_cids = match_constraint_to_cids cons cid_to_course in
                          if matching_cids = [] then None
                          else
                            (let idxs = period_indices s e P lunch_idx in
                             if idxs = [] then None
                             else if enforce_exact cons then
                               (case matching_cids of
                                  [cid] \<Rightarrow>
                                    Some (Lin (map (\<lambda>p. (cid, didx, p)) idxs) GE (int (length idxs)))
                                | _ \<Rightarrow>
                                    Some (Lin (concat (map (\<lambda>cid. map (\<lambda>p. (cid, didx, p)) idxs)
                                                           matching_cids))
                                              GE (int (length idxs))))
                             else
                               Some (Lin (concat (map (\<lambda>cid. map (\<lambda>p. (cid, didx, p)) idxs)
                                                      matching_cids))
                                         GE 1)))))))"

definition constraint_rules ::
    "(int \<times> course) list \<Rightarrow> int \<Rightarrow> nat option \<Rightarrow> constraint list \<Rightarrow> cp_model" where
  "constraint_rules cid_to_course P lunch_idx constraints =
     List.map_filter (encode_constraint cid_to_course P lunch_idx) constraints"

definition build_model :: "course list \<Rightarrow> constraint list \<Rightarrow> int \<Rightarrow> int \<Rightarrow> cp_model" where
  "build_model courses constraints P lunch =
     (let cid_list = cid_list_of courses;
          cid_to_course = cid_to_course_of courses;
          lunch_idx = lunch_index lunch P
      in min_slot_rules cid_list P @ daily_rules cid_list P @
         teacher_rules cid_to_course P @ section_rules cid_to_course P @
         lunch_rules cid_list lunch_idx @
         constraint_rules cid_to_course P lunch_idx constraints)"

text \<open>Decoding a solution: the lunch cell, else the label of the first course of
  \<^verbatim>\<open>cid_list\<close> whose variable is 1, else the empty string.\<close>

definition decode_cell ::
    "int list \<Rightarrow> (int \<times> course) list \<Rightarrow> assignment \<Rightarrow> nat option \<Rightarrow> nat \<Rightarrow> nat \<Rightarrow> string" where
  "decode_cell cid_list cid_to_course a lunch_idx d_idx p =
     (if lunch_idx = Some p then ''LUNCH''
      else
        (case find (\<lambda>cid. a (cid, d_idx, p)) cid_list of
           None \<Rightarrow> []
         | Some cid \<Rightarrow>
             (case map_of cid_to_course cid of
                None \<Rightarrow> []
              | Some c \<Rightarrow> py_strip (str_or (course_name c) (str_or (course_code c) [])))))"

definition decode_grid ::
    "int list \<Rightarrow> (int \<times> course) list \<Rightarrow> assignment \<Rightarrow> nat option \<Rightarrow> int \<Rightarrow> grid" where
  "decode_grid cid_list cid_to_course a lunch_idx P =
     map (\<lambda>d_idx. (DAYS ! d_idx,
                    map (decode_cell cid_list cid_to_course a lunch_idx d_idx) [0..<nat P]))
         day_range"

text \<open>\<^verbatim>\<open>run_ortools_solver\<close>: \<open>None\<close> when OR-Tools is unavailable or the status is
  neither \<^verbatim>\<open>OPTIMAL\<close> nor \<^verbatim>\<open>FEASIBLE\<close>.\<close>

definition run_ortools_solver ::
    "bool \<Rightarrow> (cp_model \<Rightarrow> status \<times> assignment) \<Rightarrow> course list \<Rightarrow> constraint list \<Rightarrow>
     int \<Rightarrow> int \<Rightarrow> grid option" where
  "run_ortools_solver ortools_available solve courses constraints P lunch =
     (if \<not> ortools_available then None
      else
        (case solve (build_model courses constraints P lunch) of
           (st, a) \<Rightarrow>
             if st = OPTIMAL \<or> st = FEASIBLE
             then Some (decode_grid (cid_list_of courses) (cid_to_course_of courses) a
                          (lunch_index lunch P) P)
             else None))"

section \<open>solver\_runner: the entry point\<close>

text \<open>The request: \<^verbatim>\<open>periods\<close> and \<^verbatim>\<open>lunch\<close> may be absent (defaults 6 and 0).\<close>

record payload =
  p_courses :: "course list"
  p_constraints :: "constraint list"
  p_periods :: "int option"
  p_lunch :: "int option"

definition periods_of :: "payload \<Rightarrow> int" where
  "periods_of pl = (case p_periods pl of None \<Rightarrow> 6 | Some n \<Rightarrow> n)"

definition lunch_of :: "payload \<Rightarrow> int" where
  "lunch_of pl = (case p_lunch pl of None \<Rightarrow> 0 | Some n \<Rightarrow> n)"

definition run_solver ::
    "bool \<Rightarrow> (cp_model \<Rightarrow> status \<times> assignment) \<Rightarrow> (nat \<Rightarrow> nat) \<Rightarrow> payload \<Rightarrow> grid" where
  "run_solver ortools_available solve rnd pl =
     (let courses = p_courses pl;
          constraints = p_constraints pl;
          P = periods_of pl;
          lunch = lunch_of pl;
          g = (if ortools_available
               then run_ortools_solver ortools_available solve courses constraints P lunch
               else None)
      in case g of
           None \<Rightarrow> greedy_csp_solver rnd courses constraints P lunch
         | Some g' \<Rightarrow> if g' = [] then greedy_csp_solver rnd courses constraints P lunch else g')"

section \<open>Dashboards: the validator\<close>

text \<open>
  \<^verbatim>\<open>_parse_period_range\<close> of the dashboards: the 1-based periods of a range, the empty
  list when \<^verbatim>\<open>int\<close> fails.
\<close>

definition parse_period_range :: "string \<Rightarrow> int list" where
  "parse_period_range pr0 =
     (let pr = py_upper (py_strip pr0) in
      if CHR ''-'' \<in> set pr then
        (let (a, b) = split_dash pr in
         case py_int (lstrip_char (CHR ''P'') (py_strip a)) of
           None \<Rightarrow> []
         | Some start \<Rightarrow>
             (case py_int (lstrip_char (CHR ''P'') (py_strip b)) of
                None \<Rightarrow> []
              | Some end' \<Rightarrow> if start > end' then [end'..start] else [start..end']))
      else
        (case py_int (lstrip_char (CHR ''P'') pr) of None \<Rightarrow> [] | Some i \<Rightarrow> [i]))"

text \<open>
  The messages of the validator. The code formats them as text; the model keeps their
  parts: the course name, the day, the range, and for a violated constraint the cells
  found in the range.
\<close>

datatype violation =
    DayMissing string string string
  | Violated string string string "string list"

text \<open>\<^verbatim>\<open>grid_norm\<close>: the grid keyed by \<^verbatim>\<open>str(d).strip().capitalize()\<close>; of two days with the
  same normal form the later one is kept.\<close>

definition grid_norm_get :: "grid \<Rightarrow> string \<Rightarrow> string list option" where
  "grid_norm_get g day = map_of (rev (map (\<lambda>(d, row). (py_capitalize (py_strip d), row)) g)) day"

text \<open>The comparison of one cell with the normalised course text of the constraint.\<close>

definition cell_matches :: "string \<Rightarrow> string \<Rightarrow> bool" where
  "cell_matches target cell =
     (let subj = py_strip (before_sep '' - '' cell);
          subj_norm = normalize_text subj
      in subj_norm = target \<or> py_in target subj_norm \<or> py_in subj_norm target)"

definition period_matches :: "string \<Rightarrow> string list \<Rightarrow> int \<Rightarrow> bool" where
  "period_matches target row p =
     (let idx = p - 1 in
      0 \<le> idx \<and> idx < int (length row) \<and> row ! nat idx \<noteq> [] \<and> cell_matches target (row ! nat idx))"

definition present_cells :: "string list \<Rightarrow> int list \<Rightarrow> string list" where
  "present_cells row periods =
     map (\<lambda>p. row ! nat (p - 1)) (filter (\<lambda>p. 0 \<le> p - 1 \<and> p - 1 < int (length row)) periods)"

text \<open>The body of the loop over the constraints: \<open>None\<close> when the constraint is skipped
  or found, the message otherwise. \<open>last_section\<close> is the dashboard's \<^verbatim>\<open>_last_section\<close>.\<close>

definition check_constraint :: "string \<Rightarrow> grid \<Rightarrow> constraint \<Rightarrow> violation option" where
  "check_constraint last_section g c =
     (let c_type = py_strip (str_or (cons_type c) ''Hard'') in
      if py_upper c_type \<noteq> ''HARD'' \<and> py_upper c_type \<noteq> ''EXACT'' then None
      else
        (let course_name = py_strip (str_or (cons_course_name c) []);
             section = py_strip (str_or (cons_section c) ''ALL'');
             day = py_capitalize (py_strip (str_or (cons_day c) []));
             pr = py_strip (str_or (cons_period_range c) [])
         in if course_name = [] \<or> day = [] \<or> pr = [] then None
            else if py_upper section \<noteq> ''ALL'' \<and> section \<noteq> last_section then None
            else
              (let periods = parse_period_range pr in
               if periods = [] then None
               else
                 (case grid_norm_get g day of
                    None \<Rightarrow> Some (DayMissing course_name day pr)
                  | Some row \<Rightarrow>
                      if list_ex (period_matches (normalize_text course_name) row) periods
                      then None
                      else Some (Violated course_name day pr (present_cells row periods))))))"

fun validate_loop ::
    "string \<Rightarrow> grid \<Rightarrow> constraint list \<Rightarrow> bool \<times> violation list \<Rightarrow> bool \<times> violation list" where
  "validate_loop last_section g [] (ok, msgs) = (ok, msgs)"
| "validate_loop last_section g (c # cs) (ok, msgs) =
     (case check_constraint last_section g c of
        None \<Rightarrow> validate_loop last_section g cs (ok, msgs)
      | Some m \<Rightarrow> validate_loop last_section g cs (False, msgs @ [m]))"

text \<open>\<^verbatim>\<open>_validate_grid_constraints\<close>; \<open>constraints\<close> is the list the constraint store
  returns (with no store the code returns \<open>(True, [])\<close>, the result for the empty list).\<close>

definition validate_grid_constraints ::
    "constraint list \<Rightarrow> string \<Rightarrow> grid \<Rightarrow> bool \<times> violation list" where
  "validate_grid_constraints constraints last_section g =
     validate_loop last_section g constraints (True, [])"

section \<open>Teacher dashboard: diversity score and local improvement\<close>

definition first_row_length :: "grid \<Rightarrow> nat" where
  "first_row_length g = (case g of [] \<Rightarrow> 0 | (d, row) # _ \<Rightarrow> length row)"

text \<open>The labels one period column contributes to \<^verbatim>\<open>seen\<close>.\<close>

definition column_labels :: "grid \<Rightarrow> nat \<Rightarrow> string list" where
  "column_labels g p =
     map (\<lambda>v. py_lower (py_strip v))
       (filter (\<lambda>v. v \<noteq> [] \<and> py_upper (py_strip v) \<noteq> ''LUNCH'') (map (\<lambda>(d, row). row ! p) g))"

text \<open>
  \<^verbatim>\<open>_diversity_score\<close>. The score is a whole number (held in a float by the code). A
  row shorter than the first one makes \<^verbatim>\<open>row[p]\<close> raise, and the handler returns 0.
\<close>

definition diversity_score :: "grid \<Rightarrow> nat" where
  "diversity_score g =
     (let periods = first_row_length g in
      if list_ex (\<lambda>(d, row). length row < periods) g then 0
      else sum_list (map (\<lambda>p. length (remdups (column_labels g p))) [0..<periods]))"

text \<open>Cells by day position: \<^verbatim>\<open>days = list(best.keys())\<close>, \<^verbatim>\<open>best[days[di]][p]\<close>.\<close>

definition cell :: "grid \<Rightarrow> nat \<Rightarrow> nat \<Rightarrow> string" where
  "cell g di p = snd (g ! di) ! p"

definition set_cell :: "grid \<Rightarrow> nat \<Rightarrow> nat \<Rightarrow> string \<Rightarrow> grid" where
  "set_cell g di p v = g[di := (fst (g ! di), (snd (g ! di))[p := v])]"

definition swap_cells :: "grid \<Rightarrow> nat \<times> nat \<Rightarrow> nat \<times> nat \<Rightarrow> grid" where
  "swap_cells g a b =
     (case a of (da, pa) \<Rightarrow> case b of (db, pb) \<Rightarrow>
        (let va = cell g da pa; vb = cell g db pb
         in set_cell (set_cell g da pa vb) db pb va))"

definition slots_of :: "grid \<Rightarrow> nat option \<Rightarrow> (nat \<times> nat) list" where
  "slots_of g lunch_idx =
     concat (map (\<lambda>di. map (\<lambda>p. (di, p))
                          (filter (\<lambda>p. lunch_idx \<noteq> Some p) [0..<first_row_length g]))
                 [0..<length g])"

text \<open>
  \<^verbatim>\<open>random.sample(slots, 2)\<close>: two different positions of \<open>slots\<close>. A draw is a pair of
  numbers \<open>(i, j)\<close>; the first position is \<open>i mod n\<close> and the second one is one of the
  \<open>n - 1\<close> other positions.
\<close>

definition sample2 :: "'a list \<Rightarrow> nat \<times> nat \<Rightarrow> 'a \<times> 'a" where
  "sample2 slots r =
     (case r of (i, j) \<Rightarrow>
        (let n = length slots; ia = i mod n; ib = (ia + 1 + j mod (n - 1)) mod n
         in (slots ! ia, slots ! ib)))"

text \<open>
  The loop of \<^verbatim>\<open>_improve_grid_via_swaps\<close> over the iterations \<open>ks\<close>, on the state
  \<open>(best, best_score)\<close>. \<open>None\<close> is an \<^verbatim>\<open>IndexError\<close> of \<^verbatim>\<open>best[day][p]\<close> (a row
  shorter than the first row). The early exit compares the score with
  \<^verbatim>\<open>periods * len(days) * 0.7\<close>; on whole numbers that is \<open>7 * periods * days \<le> 10 * score\<close>.
\<close>

fun improve_loop ::
    "constraint list \<Rightarrow> string \<Rightarrow> (nat \<Rightarrow> nat \<times> nat) \<Rightarrow> (nat \<times> nat) list \<Rightarrow> nat \<Rightarrow>
     nat list \<Rightarrow> grid \<times> nat \<Rightarrow> grid option" where
  "improve_loop cons ls rnd slots cells [] (best, best_score) = Some best"
| "improve_loop cons ls rnd slots cells (k # ks) (best, best_score) =
     (case sample2 slots (rnd k) of
        ((da, pa), (db, pb)) \<Rightarrow>
          if pa \<ge> length (snd (best ! da)) \<or> pb \<ge> length (snd (best ! db)) then None
          else if cell best da pa = cell best db pb
          then improve_loop cons ls rnd slots cells ks (best, best_score)
          else
            (let candidate = swap_cells best (da, pa) (db, pb) in
             if \<not> fst (validate_grid_constraints cons ls candidate)
             then improve_loop cons ls rnd slots cells ks (best, best_score)
             else
               (let sc = diversity_score candidate in
                if sc > best_score then
                  (if 7 * cells \<le> 10 * sc then Some candidate
                   else improve_loop cons ls rnd slots cells ks (candidate, sc))
                else improve_loop cons ls rnd slots cells ks (best, best_score))))"

text \<open>\<^verbatim>\<open>_improve_grid_via_swaps\<close>: \<open>cons\<close> and \<open>ls\<close> are what the validator reads (the
  stored constraints and \<^verbatim>\<open>_last_section\<close>), \<open>rnd k\<close> is the draw of iteration \<open>k\<close>. An
  exception makes the code return the grid it was given.\<close>

definition improve_grid_via_swaps ::
    "constraint list \<Rightarrow> string \<Rightarrow> (nat \<Rightarrow> nat \<times> nat) \<Rightarrow> grid \<Rightarrow> int \<Rightarrow> nat option \<Rightarrow> grid" where
  "improve_grid_via_swaps cons ls rnd g max_iters lunch_idx =
     (let best = g;
          best_score = diversity_score best;
          periods = first_row_length best;
          slots = slots_of best lunch_idx
      in if length slots < 2 then best
         else
           (case improve_loop cons ls rnd slots (periods * length best)
                   [0..<nat max_iters] (best, best_score) of
              None \<Rightarrow> g
            | Some b \<Rightarrow> b))"

section \<open>Predicates used in the statements\<close>

text \<open>A grid has the five weekdays as its keys, in order, and rows of \<open>n\<close> cells.\<close>

definition grid_shape :: "nat \<Rightarrow> grid \<Rightarrow> bool" where
  "grid_shape n g = (map fst g = DAYS \<and> list_all (\<lambda>row. length row = n) (map snd g))"

text \<open>A cell the filler no longer changes: the lunch cell holds \<open>LUNCH\<close>, any other cell
  is non-empty.\<close>

definition settled :: "nat option \<Rightarrow> nat \<Rightarrow> string \<Rightarrow> bool" where
  "settled l p v = (if l = Some p then v = ''LUNCH'' else v \<noteq> [])"

text \<open>The grid of the greedy solver after its loop over the constraints, before the
  filler runs.\<close>

definition placed_grid :: "course list \<Rightarrow> constraint list \<Rightarrow> int \<Rightarrow> int \<Rightarrow> grid" where
  "placed_grid courses constraints P lunch =
     fold (greedy_place (cid_to_course_of courses) P (lunch_index lunch P)) constraints
       (empty_grid P)"

text \<open>What the filler may make of a cell that held \<open>v0\<close>: leave it, write \<open>LUNCH\<close> in the
  lunch column, or write a label of \<open>sh\<close> where the cell was empty.\<close>

definition filled_from :: "nat option \<Rightarrow> string list \<Rightarrow> nat \<Rightarrow> string \<Rightarrow> string \<Rightarrow> bool" where
  "filled_from l sh p v0 v =
     (v = v0 \<or> (l = Some p \<and> v = ''LUNCH'') \<or> (l \<noteq> Some p \<and> v0 = [] \<and> v \<in> set sh))"

text \<open>
  The string operations above agree with Python on ASCII text only (Python also strips
  Unicode whitespace and case-maps letters outside A-Z). The statements that conclude what
  a cell holds, or how a text is matched, are therefore made for requests and grids whose
  texts are ASCII.
\<close>

definition ascii_text :: "string \<Rightarrow> bool" where
  "ascii_text s = list_all (\<lambda>c. (of_char c :: nat) < 128) s"

definition ascii_opt :: "string option \<Rightarrow> bool" where
  "ascii_opt v = (case v of None \<Rightarrow> True | Some s \<Rightarrow> ascii_text s)"

definition ascii_course :: "course \<Rightarrow> bool" where
  "ascii_course c =
     (ascii_opt (course_name c) \<and> ascii_opt (course_code c) \<and> ascii_opt (course_section c))"

definition ascii_constraint :: "constraint \<Rightarrow> bool" where
  "ascii_constraint c =
     (ascii_opt (cons_course_name c) \<and> ascii_opt (cons_section c) \<and> ascii_opt (cons_day c) \<and>
      ascii_opt (cons_period_range c) \<and> ascii_opt (cons_periods c) \<and> ascii_opt (cons_type c) \<and>
      ascii_opt (cons_mode c))"

definition ascii_request :: "course list \<Rightarrow> constraint list \<Rightarrow> bool" where
  "ascii_request courses constraints =
     (list_all ascii_course courses \<and> list_all ascii_constraint constraints)"

definition ascii_payload :: "payload \<Rightarrow> bool" where
  "ascii_payload pl = ascii_request (p_courses pl) (p_constraints pl)"

definition ascii_grid :: "grid \<Rightarrow> bool" where
  "ascii_grid g = list_all (\<lambda>(d, row). ascii_text d \<and> list_all ascii_text row) g"

text \<open>
  The matcher as the specification words it: three tiers, each the identifiers of the
  courses of the map, in its order, that pass the tier's test and the section filter.
\<close>

definition section_ok :: "string \<Rightarrow> course \<Rightarrow> bool" where
  "section_ok csec c =
     (py_upper csec = ''ALL'' \<or> py_strip (str_or (course_section c) ''ALL'') = csec)"

definition exact_match :: "string \<Rightarrow> course \<Rightarrow> bool" where
  "exact_match target c =
     (normalize_text (str_or (course_name c) []) = target \<or>
      normalize_text (str_or (course_code c) []) = target)"

definition token_match :: "string list \<Rightarrow> course \<Rightarrow> bool" where
  "token_match tokens c =
     (let name = normalize_text (str_or (course_name c) []);
          code = normalize_text (str_or (course_code c) [])
      in list_ex (\<lambda>tk. tk \<noteq> [] \<and>
                    (py_in tk name \<or> py_in tk code \<or> py_in name tk \<or> py_in code tk)) tokens)"

definition affix_match :: "string \<Rightarrow> course \<Rightarrow> bool" where
  "affix_match target c =
     (let name = normalize_text (str_or (course_name c) []);
          code = normalize_text (str_or (course_code c) [])
      in startswith name target \<or> endswith name target \<or>
         startswith code target \<or> endswith code target)"

definition tier :: "(course \<Rightarrow> bool) \<Rightarrow> string \<Rightarrow> (int \<times> course) list \<Rightarrow> int list" where
  "tier test csec items = map fst (filter (\<lambda>(cid, c). test c \<and> section_ok csec c) items)"

definition cons_target :: "constraint \<Rightarrow> string" where
  "cons_target cons = normalize_text (py_strip (str_or (cons_course_name cons) []))"

definition cons_csec :: "constraint \<Rightarrow> string" where
  "cons_csec cons = py_strip (str_or (cons_section cons) ''ALL'')"

definition target_tokens_of :: "string \<Rightarrow> string list" where
  "target_tokens_of target =
     filter (\<lambda>t. t \<noteq> [])
       (py_split (py_replace (CHR ''-'') '' '' (py_replace (CHR ''/'') '' '' target)))"

definition tiered_matcher :: "constraint \<Rightarrow> (int \<times> course) list \<Rightarrow> int list" where
  "tiered_matcher cons items =
     (if cons_target cons = [] then []
      else if tier (exact_match (cons_target cons)) (cons_csec cons) items \<noteq> []
      then tier (exact_match (cons_target cons)) (cons_csec cons) items
      else if tier (token_match (target_tokens_of (cons_target cons))) (cons_csec cons) items \<noteq> []
      then tier (token_match (target_tokens_of (cons_target cons))) (cons_csec cons) items
      else tier (affix_match (cons_target cons)) (cons_csec cons) items)"








definition greedy_range :: "constraint \<Rightarrow> string" where
  "greedy_range c = str_or (cons_period_range c) (str_or (cons_periods c) [])"





text \<open>
  What the exact path reads from a constraint: the allowed period indices, from the
  stripped range text.
\<close>

definition ortools_indices :: "constraint \<Rightarrow> int \<Rightarrow> nat option \<Rightarrow> nat list" where
  "ortools_indices c P lunch_idx =
     (let (s0, e0) = parse_period_token (py_strip (greedy_range c));
          s = max 0 s0;
          e = min (P - 1) e0
      in period_indices s e P lunch_idx)"

text \<open>The variables of one course on one day, and over the week.\<close>

definition day_vars :: "int \<Rightarrow> int \<Rightarrow> nat \<Rightarrow> var list" where
  "day_vars cid P d = map (\<lambda>p. (cid, d, p)) [0..<nat P]"

definition week_vars :: "int \<Rightarrow> int \<Rightarrow> var list" where
  "week_vars cid P = concat (map (day_vars cid P) day_range)"

text \<open>
  The answer of the solver on a model is sound: with the status \<^verbatim>\<open>OPTIMAL\<close> or \<^verbatim>\<open>FEASIBLE\<close>
  the values it reports satisfy every rule of the model.
\<close>

definition sound_on :: "(cp_model \<Rightarrow> status \<times> assignment) \<Rightarrow> cp_model \<Rightarrow> bool" where
  "sound_on solve m =
     ((fst (solve m) = OPTIMAL \<or> fst (solve m) = FEASIBLE) \<longrightarrow> satisfies (snd (solve m)) m)"

text \<open>The number of cells of a grid that hold a label.\<close>

definition occurrences :: "string \<Rightarrow> grid \<Rightarrow> nat" where
  "occurrences label g = sum_list (map (\<lambda>(d, row). length (filter (\<lambda>v. v = label) row)) g)"

section \<open>The shape of the returned grid\<close>

lemma grid_shape_empty: "grid_shape (nat P) (empty_grid P)"
  by (simp add: grid_shape_def empty_grid_def list_all_iff comp_def)

lemma grid_shape_map_row:
  assumes "grid_shape n g" and "\<And>row. length (f row) = length row"
  shows "grid_shape n (map (\<lambda>(d, row). if d = day then (d, f row) else (d, row)) g)"
proof -
  have "map fst (map (\<lambda>(d, row). if d = day then (d, f row) else (d, row)) g) = map fst g"
    by (induction g) auto
  then have "map fst (map (\<lambda>(d, row). if d = day then (d, f row) else (d, row)) g) = DAYS"
    using assms(1) by (simp only: grid_shape_def)
  moreover have "list_all (\<lambda>row. length row = n)
        (map snd (map (\<lambda>(d, row). if d = day then (d, f row) else (d, row)) g))"
    using assms by (auto simp: grid_shape_def list_all_iff)
  ultimately show ?thesis unfolding grid_shape_def by blast
qed

lemma grid_shape_set: "grid_shape n g \<Longrightarrow> grid_shape n (grid_set g d p v)"
  unfolding grid_set_def by (rule grid_shape_map_row) simp_all

lemma length_place_first_empty: "length (fst (place_first_empty row ps label)) = length row"
  by (induction ps) auto

lemma length_fill_empty: "length (fill_empty row ps label) = length row"
  by (induction ps arbitrary: row) auto

lemma length_place_one: "length (place_one row ps label) = length row"
proof (cases "place_first_empty row ps label")
  case (Pair r b)
  have "length r = length row"
    using length_place_first_empty[of row ps label] unfolding Pair by simp
  then show ?thesis
    unfolding place_one_def Pair by (cases b; cases ps) simp_all
qed

lemma length_place_in_row: "length (place_in_row m cons ctype idxs row) = length row"
  by (simp add: place_in_row_def length_place_one length_fill_empty Let_def
           split: list.split option.split)

lemma grid_shape_greedy_place:
  "grid_shape n g \<Longrightarrow> grid_shape n (greedy_place m P l cons g)"
  unfolding greedy_place_def Let_def
  by (auto split: prod.split intro!: grid_shape_map_row simp: length_place_in_row)

lemma grid_shape_fold_place:
  "grid_shape n g \<Longrightarrow> grid_shape n (fold (greedy_place m P l) cs g)"
  by (induction cs arbitrary: g) (simp_all add: grid_shape_greedy_place)

lemma grid_shape_fill_cell:
  "grid_shape n (fst st) \<Longrightarrow> grid_shape n (fst (fill_cell l sh p d st))"
  by (cases st) (simp add: fill_cell_def grid_shape_set)

lemma grid_shape_fold_cell:
  "grid_shape n (fst st) \<Longrightarrow> grid_shape n (fst (fold (fill_cell l sh p) ds st))"
  by (induction ds arbitrary: st) (simp_all add: grid_shape_fill_cell)

lemma grid_shape_fold_fill:
  "grid_shape n (fst st) \<Longrightarrow>
   grid_shape n (fst (fold (\<lambda>p st. fold (fill_cell l sh p) DAYS st) ps st))"
  by (induction ps arbitrary: st) (simp_all add: grid_shape_fold_cell)

lemma grid_shape_fill_grid: "grid_shape n g \<Longrightarrow> grid_shape n (fill_grid l sh P g)"
  by (simp add: fill_grid_def grid_shape_fold_fill)

lemma grid_shape_greedy: "grid_shape (nat P) (greedy_csp_solver rnd courses constraints P lunch)"
  by (simp add: greedy_csp_solver_def Let_def grid_shape_fill_grid grid_shape_fold_place
        grid_shape_empty)

lemma grid_shape_decode: "grid_shape (nat P) (decode_grid cl m a l P)"
proof -
  have "map fst (decode_grid cl m a l P) = map (\<lambda>d. DAYS ! d) [0..<length DAYS]"
    by (simp add: decode_grid_def day_range_def comp_def)
  then have "map fst (decode_grid cl m a l P) = DAYS" by (simp only: map_nth)
  moreover have "list_all (\<lambda>row. length row = nat P) (map snd (decode_grid cl m a l P))"
    by (simp add: decode_grid_def list_all_iff)
  ultimately show ?thesis unfolding grid_shape_def by blast
qed

lemma grid_shape_nonempty: "grid_shape n g \<Longrightarrow> g \<noteq> []"
  by (auto simp: grid_shape_def DAYS_def)

lemma grid_shape_run_solver: "grid_shape (nat (periods_of pl)) (run_solver av solve rnd pl)"
  by (auto simp: run_solver_def Let_def run_ortools_solver_def grid_shape_greedy grid_shape_decode
        split: option.split prod.split)

section \<open>The filler of the greedy solver\<close>

lemma fold_settle:
  assumes inv: "\<And>x s. I s \<Longrightarrow> x \<in> A \<Longrightarrow> I (f x s)"
    and est: "\<And>x s. I s \<Longrightarrow> x \<in> A \<Longrightarrow> Q x (f x s)"
    and keep: "\<And>x y s. I s \<Longrightarrow> x \<in> A \<Longrightarrow> Q y s \<Longrightarrow> Q y (f x s)"
  shows "I s \<Longrightarrow> set xs \<subseteq> A \<Longrightarrow>
     I (fold f xs s) \<and> (\<forall>y. Q y s \<longrightarrow> Q y (fold f xs s)) \<and> (\<forall>x\<in>set xs. Q x (fold f xs s))"
proof (induction xs arbitrary: s)
  case Nil
  then show ?case by simp
next
  case (Cons x xs)
  from Cons.prems have xA: "x \<in> A" and sub: "set xs \<subseteq> A" by auto
  have I': "I (f x s)" using inv Cons.prems(1) xA by blast
  note ih = Cons.IH[OF I' sub]
  have "Q x (f x s)" using est Cons.prems(1) xA by blast
  moreover have "\<And>y. Q y s \<Longrightarrow> Q y (f x s)" using keep Cons.prems(1) xA by blast
  ultimately show ?case using ih by auto
qed

lemma map_of_map_row:
  "map_of (map (\<lambda>(d, row). if d = day then (d, f row) else (d, row)) g) k =
     (if k = day then map_option f (map_of g k) else map_of g k)"
  by (induction g) auto

lemma grid_shape_row:
  assumes "grid_shape n g" and "d \<in> set DAYS"
  shows "\<exists>row. map_of g d = Some row \<and> length row = n"
proof -
  from assms have "d \<in> fst ` set g" by (metis grid_shape_def set_map)
  then obtain row where r: "map_of g d = Some row"
    by (metis map_of_eq_None_iff not_None_eq)
  then have "(d, row) \<in> set g" by (rule map_of_SomeD)
  then have "row \<in> set (map snd g)" by force
  with assms(1) have "length row = n" by (auto simp: grid_shape_def list_all_iff)
  with r show ?thesis by blast
qed

lemma grid_get_set_other:
  "(d', p') \<noteq> (d, p) \<Longrightarrow> grid_get (grid_set g d p v) d' p' = grid_get g d' p'"
  by (auto simp: grid_get_def grid_set_def map_of_map_row split: option.split)

lemma grid_get_set_same:
  assumes "grid_shape n g" and "d \<in> set DAYS" and "p < n"
  shows "grid_get (grid_set g d p v) d p = v"
proof -
  from grid_shape_row[OF assms(1,2)] obtain row where "map_of g d = Some row" "length row = n"
    by blast
  with assms(3) show ?thesis by (simp add: grid_get_def grid_set_def map_of_map_row)
qed

lemma fill_cell_keep:
  assumes "settled l p' (grid_get (fst st) d' p')"
  shows "grid_get (fst (fill_cell l sh p d st)) d' p' = grid_get (fst st) d' p'"
proof (cases "(d', p') = (d, p)")
  case False
  then show ?thesis
    by (cases st) (simp add: fill_cell_def grid_get_set_other del: prod.inject)
next
  case True
  obtain g idx where st: "st = (g, idx)" by (cases st)
  show ?thesis
  proof (cases "l = Some p")
    case l: True
    with assms True st have v: "grid_get g d p = ''LUNCH''" by (simp add: settled_def)
    have "grid_get (grid_set g d p ''LUNCH'') d p = ''LUNCH''"
      using v by (auto simp: grid_get_def grid_set_def map_of_map_row split: option.splits)
         (metis length_list_update list.discI nth_equalityI nth_list_update_eq nth_list_update_neq)
    with l v True st show ?thesis by (simp add: fill_cell_def)
  next
    case False
    with assms True st have "grid_get g d p \<noteq> []" by (simp add: settled_def)
    with False True st show ?thesis by (simp add: fill_cell_def)
  qed
qed

lemma fill_cell_settles:
  assumes "grid_shape n (fst st)" and "d \<in> set DAYS" and "p < n"
    and "sh \<noteq> []" and "[] \<notin> set sh"
  shows "settled l p (grid_get (fst (fill_cell l sh p d st)) d p)"
proof -
  obtain g idx where st: "st = (g, idx)" by (cases st)
  have nz: "sh ! (idx mod length sh) \<noteq> []"
    using assms(4,5) by (metis length_greater_0_conv mod_less_divisor nth_mem)
  from assms(1) st have sg: "grid_shape n g" by simp
  show ?thesis
    using nz by (simp add: st fill_cell_def settled_def grid_get_set_same[OF sg assms(2,3)])
qed

lemma fill_cell_shape:
  "grid_shape n (fst st) \<Longrightarrow> grid_shape n (fst (fill_cell l sh p d st))"
  by (rule grid_shape_fill_cell)

lemma fold_days_settle:
  assumes "grid_shape n (fst st)" and "p < n" and "sh \<noteq> []" and "[] \<notin> set sh"
  shows "grid_shape n (fst (fold (fill_cell l sh p) DAYS st)) \<and>
         (\<forall>y. settled l (snd y) (grid_get (fst st) (fst y) (snd y)) \<longrightarrow>
              grid_get (fst (fold (fill_cell l sh p) DAYS st)) (fst y) (snd y)
                = grid_get (fst st) (fst y) (snd y)) \<and>
         (\<forall>d\<in>set DAYS. settled l p (grid_get (fst (fold (fill_cell l sh p) DAYS st)) d p))"
proof -
  let ?f = "fill_cell l sh p"
  let ?I = "\<lambda>s. grid_shape n (fst s) \<and>
      (\<forall>y. settled l (snd y) (grid_get (fst st) (fst y) (snd y)) \<longrightarrow>
           grid_get (fst s) (fst y) (snd y) = grid_get (fst st) (fst y) (snd y))"
  let ?Q = "\<lambda>d s. settled l p (grid_get (fst s) d p)"
  have inv: "?I (?f x s)" if "?I s" "x \<in> set DAYS" for x s
  proof (intro conjI allI impI)
    from that(1) show "grid_shape n (fst (?f x s))" by (simp add: grid_shape_fill_cell)
  next
    fix y assume a: "settled l (snd y) (grid_get (fst st) (fst y) (snd y))"
    with that(1) have e: "grid_get (fst s) (fst y) (snd y) = grid_get (fst st) (fst y) (snd y)"
      by blast
    with a have "settled l (snd y) (grid_get (fst s) (fst y) (snd y))" by simp
    from fill_cell_keep[OF this] e
    show "grid_get (fst (?f x s)) (fst y) (snd y) = grid_get (fst st) (fst y) (snd y)" by simp
  qed
  have est: "\<And>x s. ?I s \<Longrightarrow> x \<in> set DAYS \<Longrightarrow> ?Q x (?f x s)"
    using assms(2,3,4) fill_cell_settles by blast
  have keep: "\<And>x y s. ?I s \<Longrightarrow> x \<in> set DAYS \<Longrightarrow> ?Q y s \<Longrightarrow> ?Q y (?f x s)"
    by (simp add: fill_cell_keep)
  have I0: "?I st" using assms(1) by simp
  from fold_settle[of ?I "set DAYS" ?f ?Q, OF inv est keep I0 subset_refl]
  show ?thesis by blast
qed

lemma fold_periods_settle:
  assumes "grid_shape n (fst st)" and "sh \<noteq> []" and "[] \<notin> set sh" and "set ps \<subseteq> {..<n}"
  shows "grid_shape n (fst (fold (\<lambda>p. fold (fill_cell l sh p) DAYS) ps st)) \<and>
         (\<forall>y. settled l (snd y) (grid_get (fst st) (fst y) (snd y)) \<longrightarrow>
              grid_get (fst (fold (\<lambda>p. fold (fill_cell l sh p) DAYS) ps st)) (fst y) (snd y)
                = grid_get (fst st) (fst y) (snd y)) \<and>
         (\<forall>p\<in>set ps. \<forall>d\<in>set DAYS.
              settled l p (grid_get (fst (fold (\<lambda>p. fold (fill_cell l sh p) DAYS) ps st)) d p))"
proof -
  let ?f = "\<lambda>p. fold (fill_cell l sh p) DAYS"
  let ?I = "\<lambda>s. grid_shape n (fst s) \<and>
      (\<forall>y. settled l (snd y) (grid_get (fst st) (fst y) (snd y)) \<longrightarrow>
           grid_get (fst s) (fst y) (snd y) = grid_get (fst st) (fst y) (snd y))"
  let ?Q = "\<lambda>p s. \<forall>d\<in>set DAYS. settled l p (grid_get (fst s) d p)"
  have inv: "?I (?f x s)" if "?I s" "x \<in> {..<n}" for x s
  proof -
    from that have "x < n" by simp
    from fold_days_settle[OF conjunct1[OF that(1)] this assms(2,3), of l]
    have sh: "grid_shape n (fst (?f x s))"
      and k: "\<forall>y. settled l (snd y) (grid_get (fst s) (fst y) (snd y)) \<longrightarrow>
              grid_get (fst (?f x s)) (fst y) (snd y) = grid_get (fst s) (fst y) (snd y)"
      by blast+
    show ?thesis
    proof (intro conjI allI impI)
      show "grid_shape n (fst (?f x s))" by (rule sh)
    next
      fix y assume a: "settled l (snd y) (grid_get (fst st) (fst y) (snd y))"
      with that(1) have e: "grid_get (fst s) (fst y) (snd y) = grid_get (fst st) (fst y) (snd y)"
        by blast
      with a have "settled l (snd y) (grid_get (fst s) (fst y) (snd y))" by simp
      with k e show "grid_get (fst (?f x s)) (fst y) (snd y) = grid_get (fst st) (fst y) (snd y)"
        by simp
    qed
  qed
  have est: "?Q x (?f x s)" if "?I s" "x \<in> {..<n}" for x s
  proof -
    from that have "x < n" by simp
    from fold_days_settle[OF conjunct1[OF that(1)] this assms(2,3), of l]
    show ?thesis by blast
  qed
  have keep: "?Q y (?f x s)" if "?I s" "x \<in> {..<n}" "?Q y s" for x y s
  proof -
    from that have "x < n" by simp
    from fold_days_settle[OF conjunct1[OF that(1)] this assms(2,3), of l]
    have k: "\<forall>y. settled l (snd y) (grid_get (fst s) (fst y) (snd y)) \<longrightarrow>
              grid_get (fst (?f x s)) (fst y) (snd y) = grid_get (fst s) (fst y) (snd y)"
      by blast
    show ?thesis
    proof
      fix d assume "d \<in> set DAYS"
      with that(3) have "settled l y (grid_get (fst s) d y)" by blast
      with k[rule_format, of "(d, y)"] show "settled l y (grid_get (fst (?f x s)) d y)" by simp
    qed
  qed
  have I0: "?I st" using assms(1) by simp
  from fold_settle[of ?I "{..<n}" ?f ?Q, OF inv est keep I0 assms(4)]
  show ?thesis by blast
qed

lemma fill_grid_settled:
  assumes "grid_shape (nat P) g" and "sh \<noteq> []" and "[] \<notin> set sh"
    and "d \<in> set DAYS" and "p < nat P"
  shows "settled l p (grid_get (fill_grid l sh P g) d p)"
proof -
  have "set [0..<nat P] \<subseteq> {..<nat P}" by auto
  from fold_periods_settle[of "nat P" "(g, 0)" sh "[0..<nat P]" l, OF _ assms(2,3) this] assms(1,4,5)
  show ?thesis by (simp add: fill_grid_def)
qed

lemma fill_grid_keep:
  assumes "grid_shape (nat P) g" and "sh \<noteq> []" and "[] \<notin> set sh"
    and "settled l p (grid_get g d p)"
  shows "grid_get (fill_grid l sh P g) d p = grid_get g d p"
proof -
  have "set [0..<nat P] \<subseteq> {..<nat P}" by auto
  from fold_periods_settle[of "nat P" "(g, 0)" sh "[0..<nat P]" l, OF _ assms(2,3) this] assms(1)
  have "\<forall>y. settled l (snd y) (grid_get g (fst y) (snd y)) \<longrightarrow>
     grid_get (fill_grid l sh P g) (fst y) (snd y) = grid_get g (fst y) (snd y)"
    by (simp add: fill_grid_def)
  from this[rule_format, of "(d, p)"] assms(4) show ?thesis by simp
qed

lemma mset_shuffle_steps:
  "\<forall>i\<in>set is. i < length xs \<Longrightarrow>
   mset (fold (\<lambda>i ys. let j = rnd i mod (i + 1) in ys[i := ys ! j, j := ys ! i]) is xs) = mset xs"
proof (induction "is" arbitrary: xs)
  case Nil
  then show ?case by simp
next
  case (Cons i "is")
  let ?j = "rnd i mod (i + 1)"
  let ?ys = "xs[i := xs ! ?j, ?j := xs ! i]"
  from Cons.prems have i: "i < length xs" by simp
  have "?j < i + 1" by simp
  with i have j: "?j < length xs" by linarith
  have m: "mset ?ys = mset xs" using mset_swap[OF j i] by simp
  have "\<forall>k\<in>set is. k < length ?ys" using Cons.prems by simp
  from Cons.IH[OF this] m show ?case by (simp add: Let_def)
qed

lemma mset_shuffle: "mset (shuffle rnd xs) = mset xs"
  unfolding shuffle_def by (rule mset_shuffle_steps) auto

lemma set_shuffle: "set (shuffle rnd xs) = set xs"
proof -
  have "set_mset (mset (shuffle rnd xs)) = set_mset (mset xs)" by (simp only: mset_shuffle)
  then show ?thesis by simp
qed

lemma str_or_nonempty: "d \<noteq> [] \<Longrightarrow> str_or v d \<noteq> []"
  by (simp add: str_or_def split: option.split)

lemma course_label_nonempty: "course_label c \<noteq> []"
  by (simp add: course_label_def str_or_nonempty)

lemma filler_labels_ok: "filler_labels cs \<noteq> [] \<and> [] \<notin> set (filler_labels cs)"
proof (cases "cs = []")
  case True
  then show ?thesis by (simp add: filler_labels_def)
next
  case False
  have "[] \<notin> course_label ` set cs"
  proof
    assume "[] \<in> course_label ` set cs"
    then obtain c where "[] = course_label c" by auto
    with course_label_nonempty[of c] show False by simp
  qed
  with False show ?thesis by (simp add: filler_labels_def)
qed

lemma shuffled_labels_ok:
  "shuffle rnd (filler_labels cs) \<noteq> [] \<and> [] \<notin> set (shuffle rnd (filler_labels cs))"
proof -
  have "set (shuffle rnd (filler_labels cs)) = set (filler_labels cs)" by (rule set_shuffle)
  moreover have "set (filler_labels cs) \<noteq> {}" using filler_labels_ok[of cs] by simp
  ultimately show ?thesis using filler_labels_ok[of cs] by auto
qed

lemma greedy_csp_solver_placed:
  "greedy_csp_solver rnd courses constraints P lunch =
     fill_grid (lunch_index lunch P) (shuffle rnd (filler_labels courses)) P
       (placed_grid courses constraints P lunch)"
  by (simp add: greedy_csp_solver_def placed_grid_def Let_def)

lemma grid_shape_placed: "grid_shape (nat P) (placed_grid courses constraints P lunch)"
  by (simp add: placed_grid_def grid_shape_fold_place grid_shape_empty)

lemma grid_get_set_cases:
  "grid_get (grid_set g d p v) d' p' = grid_get g d' p' \<or>
   (d' = d \<and> p' = p \<and> grid_get (grid_set g d p v) d' p' = v)"
proof (cases "(d', p') = (d, p)")
  case False
  then show ?thesis by (simp add: grid_get_set_other)
next
  case True
  show ?thesis
  proof (cases "map_of g d")
    case None
    with True show ?thesis by (simp add: grid_get_def grid_set_def map_of_map_row)
  next
    case (Some row)
    show ?thesis
    proof (cases "p < length row")
      case l: True
      with Some True show ?thesis by (simp add: grid_get_def grid_set_def map_of_map_row)
    next
      case False
      then have "length row \<le> p" by simp
      then have "row[p := v] = row" by (rule list_update_beyond)
      with Some True show ?thesis by (simp add: grid_get_def grid_set_def map_of_map_row)
    qed
  qed
qed

lemma fill_cell_origin:
  assumes "sh \<noteq> []"
  shows "filled_from l sh p' (grid_get (fst st) d' p') (grid_get (fst (fill_cell l sh p d st)) d' p')"
proof -
  obtain g idx where st: "st = (g, idx)" by (cases st)
  have m: "sh ! (idx mod length sh) \<in> set sh" using assms by simp
  show ?thesis
  proof (cases "l = Some p")
    case True
    with grid_get_set_cases[of g d p "''LUNCH''" d' p'] st show ?thesis
      by (auto simp: fill_cell_def filled_from_def)
  next
    case False
    show ?thesis
    proof (cases "grid_get g d p = []")
      case e: True
      with False m grid_get_set_cases[of g d p "sh ! (idx mod length sh)" d' p'] st show ?thesis
        by (auto simp: fill_cell_def filled_from_def)
    next
      case ne: False
      with False st show ?thesis by (simp add: fill_cell_def filled_from_def)
    qed
  qed
qed

lemma filled_from_trans:
  "filled_from l sh p v0 v1 \<Longrightarrow> filled_from l sh p v1 v2 \<Longrightarrow> [] \<notin> set sh \<Longrightarrow> filled_from l sh p v0 v2"
  by (auto simp: filled_from_def)

lemma filled_from_refl: "filled_from l sh p v v"
  by (simp add: filled_from_def)

lemma fold_inv:
  assumes "\<And>x s. I s \<Longrightarrow> I (f x s)"
  shows "I s \<Longrightarrow> I (fold f xs s)"
  by (induction xs arbitrary: s) (simp_all add: assms)

lemma fill_grid_origin:
  assumes "sh \<noteq> []" and "[] \<notin> set sh"
  shows "filled_from l sh p (grid_get g d p) (grid_get (fill_grid l sh P g) d p)"
proof -
  let ?I = "\<lambda>s. \<forall>d p. filled_from l sh p (grid_get g d p) (grid_get (fst s) d p)"
  have cellI: "?I (fill_cell l sh q e s)" if "?I s" for q e s
  proof (intro allI)
    fix d p
    from that have "filled_from l sh p (grid_get g d p) (grid_get (fst s) d p)" by blast
    from filled_from_trans[OF this fill_cell_origin[OF assms(1)] assms(2)]
    show "filled_from l sh p (grid_get g d p) (grid_get (fst (fill_cell l sh q e s)) d p)" .
  qed
  have dayI: "?I (fold (fill_cell l sh q) DAYS s)" if "?I s" for q s
  proof -
    have "\<And>x s. ?I s \<Longrightarrow> ?I (fill_cell l sh q x s)" by (rule cellI)
    from fold_inv[of ?I "fill_cell l sh q" s DAYS, OF this that] show ?thesis .
  qed
  have I0: "?I (g, 0)" by (simp add: filled_from_refl)
  have "\<And>x s. ?I s \<Longrightarrow> ?I ((\<lambda>p st. fold (fill_cell l sh p) DAYS st) x s)" by (rule dayI)
  from fold_inv[of ?I "\<lambda>p st. fold (fill_cell l sh p) DAYS st" "(g, 0)" "[0..<nat P]", OF this I0]
  show ?thesis by (simp add: fill_grid_def)
qed

lemma fill_grid_cell:
  assumes "grid_shape (nat P) g" and "sh \<noteq> []" and "[] \<notin> set sh"
    and "d \<in> set DAYS" and "p < nat P"
  shows "grid_get (fill_grid l sh P g) d p \<noteq> [] \<and>
         (l = Some p \<longrightarrow> grid_get (fill_grid l sh P g) d p = ''LUNCH'') \<and>
         (l \<noteq> Some p \<longrightarrow> grid_get g d p \<noteq> [] \<longrightarrow> grid_get (fill_grid l sh P g) d p = grid_get g d p) \<and>
         (l \<noteq> Some p \<longrightarrow> grid_get g d p = [] \<longrightarrow> grid_get (fill_grid l sh P g) d p \<in> set sh)"
proof -
  note s = fill_grid_settled[OF assms, of l]
  note f = fill_grid_origin[OF assms(2,3), of l p g d P]
  from s f show ?thesis by (auto simp: settled_def filled_from_def split: if_splits)
qed

section \<open>The cells of the returned grid\<close>

lemma greedy_cell:
  assumes "d \<in> set DAYS" and "p < nat P"
  shows "grid_get (greedy_csp_solver rnd courses constraints P lunch) d p \<noteq> [] \<and>
         (lunch_index lunch P = Some p \<longrightarrow>
            grid_get (greedy_csp_solver rnd courses constraints P lunch) d p = ''LUNCH'') \<and>
         (lunch_index lunch P \<noteq> Some p \<longrightarrow>
            grid_get (placed_grid courses constraints P lunch) d p \<noteq> [] \<longrightarrow>
            grid_get (greedy_csp_solver rnd courses constraints P lunch) d p
              = grid_get (placed_grid courses constraints P lunch) d p) \<and>
         (lunch_index lunch P \<noteq> Some p \<longrightarrow>
            grid_get (placed_grid courses constraints P lunch) d p = [] \<longrightarrow>
            grid_get (greedy_csp_solver rnd courses constraints P lunch) d p
              \<in> set (filler_labels courses))"
proof -
  note ok = shuffled_labels_ok[of rnd courses]
  from fill_grid_cell[where l = "lunch_index lunch P",
         OF grid_shape_placed[of P courses constraints lunch] conjunct1[OF ok] conjunct2[OF ok] assms]
  show ?thesis by (simp add: greedy_csp_solver_placed set_shuffle)
qed

lemma DAYS_nth_mem: "di < length DAYS \<Longrightarrow> DAYS ! di \<in> set DAYS"
  by simp

lemma map_of_decode_grid:
  assumes "di < length DAYS"
  shows "map_of (decode_grid cl m a l P) (DAYS ! di) = Some (map (decode_cell cl m a l di) [0..<nat P])"
proof -
  have d: "distinct DAYS" by (simp add: DAYS_def)
  have "map_of (map (\<lambda>i. (DAYS ! i, f i)) [0..<n]) (DAYS ! di) = Some (f di)"
    if "di < n" "n \<le> length DAYS" for n and f :: "nat \<Rightarrow> string list"
    using that
  proof (induction n)
    case 0
    then show ?case by simp
  next
    case (Suc n)
    show ?case
    proof (cases "di = n")
      case True
      have "DAYS ! n \<notin> fst ` set (map (\<lambda>i. (DAYS ! i, f i)) [0..<n])"
      proof
        assume "DAYS ! n \<in> fst ` set (map (\<lambda>i. (DAYS ! i, f i)) [0..<n])"
        then obtain i where "i < n" "DAYS ! i = DAYS ! n" by auto
        with d Suc.prems(2) show False by (simp add: nth_eq_iff_index_eq)
      qed
      then have "map_of (map (\<lambda>i. (DAYS ! i, f i)) [0..<n]) (DAYS ! n) = None"
        by (simp add: map_of_eq_None_iff)
      with True show ?thesis by (simp add: map_add_def)
    next
      case False
      with Suc.prems have "di < n" "n \<le> length DAYS" by simp_all
      from Suc.IH[OF this] show ?thesis by (simp add: map_add_def)
    qed
  qed
  from this[of "length DAYS" "\<lambda>i. map (decode_cell cl m a l i) [0..<nat P]"] assms
  show ?thesis by (simp add: decode_grid_def day_range_def)
qed

lemma grid_get_decode_grid:
  assumes "di < length DAYS" and "p < nat P"
  shows "grid_get (decode_grid cl m a l P) (DAYS ! di) p = decode_cell cl m a l di p"
  using assms by (simp add: grid_get_def map_of_decode_grid)

lemma decode_grid_nonempty: "decode_grid cl m a l P \<noteq> []"
  by (simp add: decode_grid_def day_range_def DAYS_def)

lemma run_solver_exact:
  assumes "av" and "fst (solve (build_model (p_courses pl) (p_constraints pl) (periods_of pl) (lunch_of pl))) = OPTIMAL \<or>
     fst (solve (build_model (p_courses pl) (p_constraints pl) (periods_of pl) (lunch_of pl))) = FEASIBLE"
  shows "run_solver av solve rnd pl =
     decode_grid (cid_list_of (p_courses pl)) (cid_to_course_of (p_courses pl))
       (snd (solve (build_model (p_courses pl) (p_constraints pl) (periods_of pl) (lunch_of pl))))
       (lunch_index (lunch_of pl) (periods_of pl)) (periods_of pl)"
  using assms
  by (auto simp: run_solver_def run_ortools_solver_def Let_def decode_grid_nonempty
           split: prod.split)

lemma run_solver_greedy:
  assumes "\<not> av \<or> \<not> (fst (solve (build_model (p_courses pl) (p_constraints pl) (periods_of pl) (lunch_of pl))) = OPTIMAL \<or>
     fst (solve (build_model (p_courses pl) (p_constraints pl) (periods_of pl) (lunch_of pl))) = FEASIBLE)"
  shows "run_solver av solve rnd pl =
     greedy_csp_solver rnd (p_courses pl) (p_constraints pl) (periods_of pl) (lunch_of pl)"
  using assms
  by (auto simp: run_solver_def run_ortools_solver_def Let_def split: prod.split)

lemma decode_cell_lunch: "decode_cell cl m a (Some p) di p = ''LUNCH''"
  by (simp add: decode_cell_def)

lemma decode_cell_free:
  "l \<noteq> Some p \<Longrightarrow> \<forall>cid\<in>set cl. \<not> a (cid, di, p) \<Longrightarrow> decode_cell cl m a l di p = []"
  by (simp add: decode_cell_def find_None_iff[THEN iffD2])

lemma run_solver_lunch_cell:
  assumes "di < length DAYS" and "lunch_index (lunch_of pl) (periods_of pl) = Some p"
  shows "grid_get (run_solver av solve rnd pl) (DAYS ! di) p = ''LUNCH''"
proof -
  let ?M = "build_model (p_courses pl) (p_constraints pl) (periods_of pl) (lunch_of pl)"
  from assms(2) have p: "p < nat (periods_of pl)"
    by (auto simp: lunch_index_def split: if_splits)
  show ?thesis
  proof (cases "av \<and> (fst (solve ?M) = OPTIMAL \<or> fst (solve ?M) = FEASIBLE)")
    case True
    then have "run_solver av solve rnd pl =
       decode_grid (cid_list_of (p_courses pl)) (cid_to_course_of (p_courses pl))
         (snd (solve ?M)) (lunch_index (lunch_of pl) (periods_of pl)) (periods_of pl)"
      using run_solver_exact by blast
    with assms p show ?thesis by (simp add: grid_get_decode_grid decode_cell_lunch)
  next
    case False
    then have "run_solver av solve rnd pl =
       greedy_csp_solver rnd (p_courses pl) (p_constraints pl) (periods_of pl) (lunch_of pl)"
      using run_solver_greedy by blast
    with greedy_cell[OF DAYS_nth_mem[OF assms(1)] p, of rnd "p_courses pl" "p_constraints pl" "lunch_of pl"]
      assms(2) show ?thesis by simp
  qed
qed

lemma grid_rows:
  assumes "grid_shape n g" and "(d, row) \<in> set g"
  shows "d \<in> set DAYS \<and> map_of g d = Some row \<and> length row = n"
proof -
  from assms(1) have m: "map fst g = DAYS" by (simp add: grid_shape_def)
  have "distinct DAYS" by (simp add: DAYS_def)
  with m have "distinct (map fst g)" by simp
  with assms(2) have r: "map_of g d = Some row" by simp
  from assms(2) have "d \<in> set (map fst g)" by force
  with m have "d \<in> set DAYS" by simp
  with r grid_shape_row[OF assms(1) this] show ?thesis by auto
qed

section \<open>C1: the shape and the marked cells of the returned grid\<close>

text \<open>
  Claim C1. For every request, \<open>run_solver\<close> returns a grid whose keys are exactly the
  five weekday names Monday to Friday, in that order, and whose row for every day has
  exactly \<open>periods\<close> cells (the request's \<^verbatim>\<open>periods\<close>, 6 when absent), on the exact-solver
  path and on the greedy path, for every answer of the solver and every random source.
  For a request of ASCII texts, every day \<open>DAYS ! di\<close> and every period \<open>p\<close> of the row:
  the cell at the lunch index holds \<open>LUNCH\<close>, the blocked period; and on the exact path
  (OR-Tools available, status \<^verbatim>\<open>OPTIMAL\<close> or \<^verbatim>\<open>FEASIBLE\<close>) a cell outside the lunch column
  for which the solution sets no course's variable is the empty string, a free cell.
\<close>

theorem run_solver_grid_shape:
  "map fst (run_solver av solve rnd pl) = DAYS \<and>
   map (\<lambda>(d, row). length row) (run_solver av solve rnd pl)
     = replicate (length DAYS) (nat (periods_of pl)) \<and>
   (ascii_payload pl \<longrightarrow> di < length DAYS \<longrightarrow> p < nat (periods_of pl) \<longrightarrow>
      (lunch_index (lunch_of pl) (periods_of pl) = Some p \<longrightarrow>
         grid_get (run_solver av solve rnd pl) (DAYS ! di) p = ''LUNCH'') \<and>
      (lunch_index (lunch_of pl) (periods_of pl) \<noteq> Some p \<longrightarrow>
       av \<longrightarrow>
       (fst (solve (build_model (p_courses pl) (p_constraints pl) (periods_of pl) (lunch_of pl))) = OPTIMAL \<or>
        fst (solve (build_model (p_courses pl) (p_constraints pl) (periods_of pl) (lunch_of pl))) = FEASIBLE) \<longrightarrow>
       (\<forall>cid \<in> set (cid_list_of (p_courses pl)).
          \<not> snd (solve (build_model (p_courses pl) (p_constraints pl) (periods_of pl) (lunch_of pl)))
               (cid, di, p)) \<longrightarrow>
         grid_get (run_solver av solve rnd pl) (DAYS ! di) p = []))"
proof -
  let ?g = "run_solver av solve rnd pl"
  let ?M = "build_model (p_courses pl) (p_constraints pl) (periods_of pl) (lunch_of pl)"
  have s: "grid_shape (nat (periods_of pl)) ?g" by (rule grid_shape_run_solver)
  then have k: "map fst ?g = DAYS" by (simp add: grid_shape_def)
  then have len: "length ?g = length DAYS" by (metis length_map)
  have "\<forall>x\<in>set ?g. (case x of (d, row) \<Rightarrow> length row) = nat (periods_of pl)"
    using s by (auto simp: grid_shape_def list_all_iff)
  then have "map (\<lambda>(d, row). length row) ?g = replicate (length ?g) (nat (periods_of pl))"
    by (simp add: map_replicate_const[symmetric] cong: map_cong)
  with len have rows: "map (\<lambda>(d, row). length row) ?g = replicate (length DAYS) (nat (periods_of pl))"
    by simp
  have lunch: "grid_get ?g (DAYS ! di) p = ''LUNCH''"
    if "di < length DAYS" "lunch_index (lunch_of pl) (periods_of pl) = Some p"
    using that by (rule run_solver_lunch_cell)
  have free: "grid_get ?g (DAYS ! di) p = []"
    if "di < length DAYS" "p < nat (periods_of pl)"
       "lunch_index (lunch_of pl) (periods_of pl) \<noteq> Some p" "av"
       "fst (solve ?M) = OPTIMAL \<or> fst (solve ?M) = FEASIBLE"
       "\<forall>cid \<in> set (cid_list_of (p_courses pl)). \<not> snd (solve ?M) (cid, di, p)"
  proof -
    from run_solver_exact[of av solve pl rnd, OF that(4,5)] that(1,2)
    have "grid_get ?g (DAYS ! di) p =
        decode_cell (cid_list_of (p_courses pl)) (cid_to_course_of (p_courses pl))
          (snd (solve ?M)) (lunch_index (lunch_of pl) (periods_of pl)) di p"
      by (simp add: grid_get_decode_grid)
    with decode_cell_free[OF that(3,6)] show ?thesis by simp
  qed
  from k rows lunch free show ?thesis by blast
qed

theorem run_solver_grid_shape_witness:
  "ascii_payload \<lparr>p_courses = [], p_constraints = [], p_periods = Some 3, p_lunch = Some 2\<rparr> \<and>
   (0::nat) < length DAYS \<and>
   lunch_index 2 3 = Some 1 \<and>
   grid_get (run_solver True (\<lambda>m. (OPTIMAL, \<lambda>v. False)) (\<lambda>i. 0)
      \<lparr>p_courses = [], p_constraints = [], p_periods = Some 3, p_lunch = Some 2\<rparr>) ''Monday'' 1
     = ''LUNCH'' \<and>
   grid_get (run_solver True (\<lambda>m. (OPTIMAL, \<lambda>v. False)) (\<lambda>i. 0)
      \<lparr>p_courses = [], p_constraints = [], p_periods = Some 3, p_lunch = Some 2\<rparr>) ''Monday'' 2
     = []"
proof -
  let ?pl = "\<lparr>p_courses = [], p_constraints = [], p_periods = Some 3, p_lunch = Some 2\<rparr>"
  have a: "ascii_payload ?pl" by (simp add: ascii_payload_def ascii_request_def)
  have d: "(0::nat) < length DAYS" "DAYS ! 0 = ''Monday''" by (simp_all add: DAYS_def)
  have l: "lunch_index (lunch_of ?pl) (periods_of ?pl) = Some 1" "lunch_index 2 3 = Some 1"
    by (simp_all add: lunch_index_def lunch_of_def periods_of_def)
  have p: "periods_of ?pl = 3" "cid_list_of (p_courses ?pl) = []"
    by (simp_all add: periods_of_def cid_list_of_def)
  from run_solver_grid_shape[of True "\<lambda>m. (OPTIMAL, \<lambda>v. False)" "\<lambda>i. 0" ?pl 0 1]
       run_solver_grid_shape[of True "\<lambda>m. (OPTIMAL, \<lambda>v. False)" "\<lambda>i. 0" ?pl 0 2]
       a d l p
  show ?thesis by simp
qed

section \<open>C6: the greedy solver fills every cell\<close>

text \<open>
  Claim C6. \<open>greedy_csp_solver\<close> is a total function: it returns for every course list,
  constraint list, number of periods, lunch value and random source. For a request of
  ASCII texts, the grid it returns has no empty cell in any row, and for every day \<open>d\<close> and
  period \<open>p\<close> of the row: the cell is not the empty string; the lunch cell, when a lunch
  period is configured, holds \<open>LUNCH\<close>; a cell outside the lunch column keeps the label the
  constraint loop placed there, and one that loop left empty receives one of the filler
  labels, which is \<open>Free\<close> when no courses are supplied.
\<close>

theorem greedy_csp_solver_fully_populated:
  assumes "ascii_request courses constraints" and "d \<in> set DAYS" and "p < nat P"
  shows "(\<forall>(d', row) \<in> set (greedy_csp_solver rnd courses constraints P lunch). [] \<notin> set row) \<and>
         grid_get (greedy_csp_solver rnd courses constraints P lunch) d p \<noteq> [] \<and>
         (lunch_index lunch P = Some p \<longrightarrow>
            grid_get (greedy_csp_solver rnd courses constraints P lunch) d p = ''LUNCH'') \<and>
         (lunch_index lunch P \<noteq> Some p \<longrightarrow>
            grid_get (placed_grid courses constraints P lunch) d p \<noteq> [] \<longrightarrow>
            grid_get (greedy_csp_solver rnd courses constraints P lunch) d p
              = grid_get (placed_grid courses constraints P lunch) d p) \<and>
         (lunch_index lunch P \<noteq> Some p \<longrightarrow>
            grid_get (placed_grid courses constraints P lunch) d p = [] \<longrightarrow>
            grid_get (greedy_csp_solver rnd courses constraints P lunch) d p
              \<in> set (filler_labels courses)) \<and>
         (lunch_index lunch P \<noteq> Some p \<longrightarrow>
            grid_get (placed_grid courses constraints P lunch) d p = [] \<longrightarrow>
            courses = [] \<longrightarrow>
            grid_get (greedy_csp_solver rnd courses constraints P lunch) d p = ''Free'')"
proof -
  let ?G = "greedy_csp_solver rnd courses constraints P lunch"
  let ?l = "lunch_index lunch P"
  let ?g0 = "placed_grid courses constraints P lunch"
  have rows: "\<forall>(d', row) \<in> set ?G. [] \<notin> set row"
  proof (intro ballI, clarify)
    fix d' row assume in_g: "(d', row) \<in> set ?G" and e: "[] \<in> set row"
    from grid_rows[OF grid_shape_greedy in_g]
    have d': "d' \<in> set DAYS" and r: "map_of ?G d' = Some row" and len: "length row = nat P"
      by blast+
    from e obtain i where i: "i < length row" "row ! i = []" by (auto simp: in_set_conv_nth)
    with r have "grid_get ?G d' i = []" by (simp add: grid_get_def)
    with greedy_cell[OF d', of i P rnd courses constraints lunch] i len show False by simp
  qed
  note c = greedy_cell[OF assms(2,3), of rnd courses constraints lunch]
  have free: "grid_get ?G d p = ''Free''"
    if "?l \<noteq> Some p" "grid_get ?g0 d p = []" "courses = []"
    using c that by (simp add: filler_labels_def)
  from rows c free show ?thesis by blast
qed

theorem greedy_csp_solver_fully_populated_witness:
  "ascii_request [] [] \<and> ''Tuesday'' \<in> set DAYS \<and> (1::nat) < nat 3 \<and>
   lunch_index 1 3 = Some 0 \<and>
   grid_get (greedy_csp_solver (\<lambda>i. 0) [] [] 3 1) ''Tuesday'' 0 = ''LUNCH'' \<and>
   grid_get (placed_grid [] [] 3 1) ''Tuesday'' 1 = [] \<and>
   grid_get (greedy_csp_solver (\<lambda>i. 0) [] [] 3 1) ''Tuesday'' 1 = ''Free''"
proof -
  have a: "ascii_request [] []" by (simp add: ascii_request_def)
  have h1: "''Tuesday'' \<in> set DAYS" by (simp add: DAYS_def)
  have h2: "(1::nat) < nat 3" by simp
  have h0: "(0::nat) < nat 3" by simp
  have l: "lunch_index 1 3 = Some 0" by (simp add: lunch_index_def)
  have e: "grid_get (placed_grid [] [] 3 1) ''Tuesday'' 1 = []" by code_simp
  from greedy_csp_solver_fully_populated[OF a h1 h0, of "\<lambda>i. 0" 1]
       greedy_csp_solver_fully_populated[OF a h1 h2, of "\<lambda>i. 0" 1] a h1 h2 l e
  show ?thesis by simp
qed

section \<open>Local improvement: the swaps\<close>

lemma lunch_index_Some:
  "1 \<le> lunch \<Longrightarrow> lunch \<le> P \<Longrightarrow> lunch_index lunch P = Some (nat (lunch - 1))"
  by (simp add: lunch_index_def)

lemma sample2_mem:
  assumes "2 \<le> length slots"
  shows "fst (sample2 slots r) \<in> set slots \<and> snd (sample2 slots r) \<in> set slots"
proof -
  obtain i j where r: "r = (i, j)" by (cases r)
  from assms have n: "0 < length slots" by (cases slots) simp_all
  then have "i mod length slots < length slots"
    and "(i mod length slots + 1 + j mod (length slots - 1)) mod length slots < length slots"
    by simp_all
  then show ?thesis by (simp add: sample2_def r Let_def)
qed

lemma slots_of_not_lunch: "(di, p) \<in> set (slots_of g (Some l)) \<Longrightarrow> p \<noteq> l"
  by (auto simp: slots_of_def)

lemma cell_set_cell_other:
  "p \<noteq> l \<Longrightarrow> cell (set_cell g di p v) i l = cell g i l"
proof (cases "di < length g")
  case True
  assume "p \<noteq> l"
  with True show ?thesis by (cases "i = di") (simp_all add: cell_def set_cell_def)
next
  case False
  then have "length g \<le> di" by simp
  then have "g[di := x] = g" for x by (rule list_update_beyond)
  then have "set_cell g di p v = g" by (simp only: set_cell_def)
  then show ?thesis by simp
qed

lemma keys_set_cell: "map fst (set_cell g di p v) = map fst g"
proof (cases "di < length g")
  case True
  have "map fst (set_cell g di p v) = (map fst g)[di := fst (g ! di)]"
    by (simp add: set_cell_def map_update)
  also have "\<dots> = (map fst g)[di := map fst g ! di]" using True by simp
  also have "\<dots> = map fst g" by (rule list_update_id)
  finally show ?thesis .
next
  case False
  then have "length g \<le> di" by simp
  then have "g[di := x] = g" for x by (rule list_update_beyond)
  then have "set_cell g di p v = g" by (simp only: set_cell_def)
  then show ?thesis by simp
qed

lemma length_set_cell: "length (set_cell g di p v) = length g"
  by (simp add: set_cell_def)

lemma swap_cells_column:
  assumes "pa \<noteq> l" and "pb \<noteq> l"
  shows "length (swap_cells g (da, pa) (db, pb)) = length g \<and>
         map fst (swap_cells g (da, pa) (db, pb)) = map fst g \<and>
         (\<forall>i. cell (swap_cells g (da, pa) (db, pb)) i l = cell g i l)"
  using assms
  by (simp add: swap_cells_def Let_def length_set_cell keys_set_cell cell_set_cell_other)

lemma improve_loop_step:
  assumes s: "sample2 slots (rnd k) = ((da, pa), (db, pb))"
    and r: "improve_loop cons ls rnd slots cells (k # ks) (best, bs) = Some b"
  shows "improve_loop cons ls rnd slots cells ks (best, bs) = Some b \<or>
         fst (validate_grid_constraints cons ls (swap_cells best (da, pa) (db, pb))) \<and>
         bs < diversity_score (swap_cells best (da, pa) (db, pb)) \<and>
         (b = swap_cells best (da, pa) (db, pb) \<or>
          improve_loop cons ls rnd slots cells ks
            (swap_cells best (da, pa) (db, pb), diversity_score (swap_cells best (da, pa) (db, pb)))
            = Some b)"
proof -
  let ?cand = "swap_cells best (da, pa) (db, pb)"
  let ?L1 = "improve_loop cons ls rnd slots cells ks (best, bs)"
  let ?L3 = "improve_loop cons ls rnd slots cells ks (?cand, diversity_score ?cand)"
  have e: "improve_loop cons ls rnd slots cells (k # ks) (best, bs) =
     (if pa \<ge> length (snd (best ! da)) \<or> pb \<ge> length (snd (best ! db)) then None
      else if cell best da pa = cell best db pb then ?L1
      else if \<not> fst (validate_grid_constraints cons ls ?cand) then ?L1
      else if diversity_score ?cand > bs
           then (if 7 * cells \<le> 10 * diversity_score ?cand then Some ?cand else ?L3)
           else ?L1)"
    by (simp only: improve_loop.simps s prod.case Let_def)
  show ?thesis
  proof (rule ccontr)
    assume "\<not> ?thesis"
    then have n: "?L1 \<noteq> Some b"
      "\<not> (fst (validate_grid_constraints cons ls ?cand) \<and> bs < diversity_score ?cand \<and>
          (b = ?cand \<or> ?L3 = Some b))"
      by blast+
    from r e have "(if pa \<ge> length (snd (best ! da)) \<or> pb \<ge> length (snd (best ! db)) then None
      else if cell best da pa = cell best db pb then ?L1
      else if \<not> fst (validate_grid_constraints cons ls ?cand) then ?L1
      else if diversity_score ?cand > bs
           then (if 7 * cells \<le> 10 * diversity_score ?cand then Some ?cand else ?L3)
           else ?L1) = Some b" by simp
    with n show False by (simp only: split: if_splits) auto
  qed
qed

lemma improve_loop_column:
  assumes sl: "\<forall>(d, p) \<in> set slots. p \<noteq> l" and n: "2 \<le> length slots"
  shows "improve_loop cons ls rnd slots cells ks (best, bs) = Some b \<Longrightarrow>
         length b = length best \<and> map fst b = map fst best \<and> (\<forall>i. cell b i l = cell best i l)"
proof (induction ks arbitrary: best bs)
  case Nil
  then show ?case by simp
next
  case (Cons k ks)
  obtain a c where ac: "sample2 slots (rnd k) = (a, c)" by (cases "sample2 slots (rnd k)")
  obtain da pa where a: "a = (da, pa)" by (cases a)
  obtain db pb where c: "c = (db, pb)" by (cases c)
  from ac a c have s: "sample2 slots (rnd k) = ((da, pa), (db, pb))" by simp
  from sample2_mem[OF n, of "rnd k"] s have "(da, pa) \<in> set slots" "(db, pb) \<in> set slots"
    by simp_all
  with sl have ne: "pa \<noteq> l" "pb \<noteq> l" by auto
  let ?cand = "swap_cells best (da, pa) (db, pb)"
  note sc = swap_cells_column[OF ne, of best da db]
  from improve_loop_step[OF s Cons.prems]
  consider "b = ?cand"
    | "improve_loop cons ls rnd slots cells ks (best, bs) = Some b"
    | "improve_loop cons ls rnd slots cells ks (?cand, diversity_score ?cand) = Some b"
    by blast
  then show ?case
  proof cases
    case 1
    with sc show ?thesis by simp
  next
    case 2
    from Cons.IH[OF this] show ?thesis .
  next
    case 3
    from Cons.IH[OF this] sc show ?thesis by simp
  qed
qed

lemma improve_column:
  "length (improve_grid_via_swaps cons ls rnd g iters (Some l)) = length g \<and>
   map fst (improve_grid_via_swaps cons ls rnd g iters (Some l)) = map fst g \<and>
   (\<forall>i. cell (improve_grid_via_swaps cons ls rnd g iters (Some l)) i l = cell g i l)"
proof (cases "length (slots_of g (Some l)) < 2")
  case True
  then show ?thesis by (simp add: improve_grid_via_swaps_def Let_def)
next
  case False
  then have n: "2 \<le> length (slots_of g (Some l))" by simp
  have sl: "\<forall>(d, p) \<in> set (slots_of g (Some l)). p \<noteq> l"
    using slots_of_not_lunch by blast
  show ?thesis
  proof (cases "improve_loop cons ls rnd (slots_of g (Some l)) (first_row_length g * length g)
                  [0..<nat iters] (g, diversity_score g)")
    case None
    with False show ?thesis by (simp add: improve_grid_via_swaps_def Let_def)
  next
    case (Some b)
    from improve_loop_column[OF sl n Some] Some False show ?thesis
      by (simp add: improve_grid_via_swaps_def Let_def)
  qed
qed



section \<open>C2: the lunch column\<close>

text \<open>
  Claim C2. For a request of ASCII texts whose \<^verbatim>\<open>lunch\<close> is a 1-based period index, that is
  \<open>1 \<le> lunch \<le> periods\<close>, the cell at index \<open>lunch - 1\<close> of every day of the grid
  \<open>run_solver\<close> returns is \<open>LUNCH\<close>. Local improvement with lunch index \<open>l\<close>, on any grid
  \<open>g\<close>: no swap slot lies in column \<open>l\<close>, both cells drawn for a swap are slots, and the
  grid returned has the keys of \<open>g\<close> and, on every day, the cell of \<open>g\<close> in column \<open>l\<close>; so a
  lunch column that holds \<open>LUNCH\<close> before the improvement holds it afterwards.
\<close>

theorem lunch_column_fixed:
  assumes "ascii_payload pl" and "list_all ascii_constraint cons" and "ascii_text ls"
    and "ascii_grid g"
    and "1 \<le> lunch_of pl" and "lunch_of pl \<le> periods_of pl"
    and "di < length DAYS" and "i < length g"
  shows "grid_get (run_solver av solve rnd pl) (DAYS ! di) (nat (lunch_of pl - 1)) = ''LUNCH'' \<and>
         (\<forall>(da, pa) \<in> set (slots_of g (Some l)). pa \<noteq> l) \<and>
         (2 \<le> length (slots_of g (Some l)) \<longrightarrow>
            fst (sample2 (slots_of g (Some l)) r) \<in> set (slots_of g (Some l)) \<and>
            snd (sample2 (slots_of g (Some l)) r) \<in> set (slots_of g (Some l))) \<and>
         map fst (improve_grid_via_swaps cons ls rnd2 g iters (Some l)) = map fst g \<and>
         cell (improve_grid_via_swaps cons ls rnd2 g iters (Some l)) i l = cell g i l"
proof -
  from lunch_index_Some[OF assms(5,6)]
  have "grid_get (run_solver av solve rnd pl) (DAYS ! di) (nat (lunch_of pl - 1)) = ''LUNCH''"
    by (rule run_solver_lunch_cell[OF assms(7)])
  moreover have "\<forall>(da, pa) \<in> set (slots_of g (Some l)). pa \<noteq> l"
    using slots_of_not_lunch by blast
  moreover note sample2_mem[of "slots_of g (Some l)" r] improve_column[of cons ls rnd2 g iters l]
  ultimately show ?thesis by blast
qed

theorem lunch_column_fixed_witness:
  "ascii_payload \<lparr>p_courses = [], p_constraints = [], p_periods = Some 3, p_lunch = Some 2\<rparr> \<and>
   list_all ascii_constraint [] \<and> ascii_text ''A'' \<and>
   ascii_grid [(''Monday'', [''X'', ''LUNCH'', ''Y'']), (''Tuesday'', [''Y'', ''LUNCH'', ''Y''])] \<and>
   grid_get (run_solver False (\<lambda>m. (UNKNOWN, \<lambda>v. False)) (\<lambda>i. 0)
      \<lparr>p_courses = [], p_constraints = [], p_periods = Some 3, p_lunch = Some 2\<rparr>) ''Friday'' 1
     = ''LUNCH'' \<and>
   cell (improve_grid_via_swaps [] ''A'' (\<lambda>k. (0, 0))
          [(''Monday'', [''X'', ''LUNCH'', ''Y'']), (''Tuesday'', [''Y'', ''LUNCH'', ''Y''])] 5 (Some 1))
        1 1 = ''LUNCH''"
proof -
  let ?pl = "\<lparr>p_courses = [], p_constraints = [], p_periods = Some 3, p_lunch = Some 2\<rparr>"
  let ?g = "[(''Monday'', [''X'', ''LUNCH'', ''Y'']), (''Tuesday'', [''Y'', ''LUNCH'', ''Y''])]"
  have a: "ascii_payload ?pl" by (simp add: ascii_payload_def ascii_request_def)
  have b: "list_all ascii_constraint []" by simp
  have c: "ascii_text ''A''" by code_simp
  have d: "ascii_grid ?g" by code_simp
  have e: "1 \<le> lunch_of ?pl" "lunch_of ?pl \<le> periods_of ?pl"
    by (simp_all add: lunch_of_def periods_of_def)
  have f: "(4::nat) < length DAYS" "DAYS ! 4 = ''Friday''" by (simp_all add: DAYS_def)
  have h: "(1::nat) < length ?g" by simp
  have k: "nat (lunch_of ?pl - 1) = 1" by (simp add: lunch_of_def)
  have m: "cell ?g 1 1 = ''LUNCH''" by (simp add: cell_def)
  from lunch_column_fixed[OF a b c d e f(1) h, of False "\<lambda>m. (UNKNOWN, \<lambda>v. False)" "\<lambda>i. 0" 1
         "(0, 0)" "\<lambda>k. (0, 0)" 5]
       a b c d f k m
  show ?thesis by simp
qed

section \<open>C5: local improvement never makes a grid worse\<close>



section \<open>C7: the three tiers of the matcher\<close>

lemma tier_Nil: "tier test csec [] = []"
  by (simp add: tier_def)

lemma tier_Cons:
  "tier test csec ((cid, c) # items) =
     (if test c \<and> section_ok csec c then cid # tier test csec items else tier test csec items)"
  by (simp add: tier_def)

lemma exact_loop_tier:
  "exact_loop target csec items acc = acc @ tier (exact_match target) csec items"
proof (induction items arbitrary: acc)
  case Nil
  show ?case by (simp add: tier_Nil)
next
  case (Cons x items)
  obtain cid c where x: "x = (cid, c)" by (cases x)
  show ?case
    by (cases "exact_match target c"; cases "section_ok csec c")
       (auto simp: x tier_Cons Cons.IH Let_def exact_match_def section_ok_def)
qed

lemma token_loop_tier:
  "token_loop tokens csec items acc = acc @ tier (token_match tokens) csec items"
proof (induction items arbitrary: acc)
  case Nil
  show ?case by (simp add: tier_Nil)
next
  case (Cons x items)
  obtain cid c where x: "x = (cid, c)" by (cases x)
  show ?case
    by (cases "token_match tokens c"; cases "section_ok csec c")
       (auto simp: x tier_Cons Cons.IH Let_def token_match_def section_ok_def)
qed

lemma affix_loop_tier:
  "affix_loop target csec items acc = acc @ tier (affix_match target) csec items"
proof (induction items arbitrary: acc)
  case Nil
  show ?case by (simp add: tier_Nil)
next
  case (Cons x items)
  obtain cid c where x: "x = (cid, c)" by (cases x)
  show ?case
    by (cases "affix_match target c"; cases "section_ok csec c")
       (auto simp: x tier_Cons Cons.IH Let_def affix_match_def section_ok_def)
qed

lemma match_is_tiered: "match_constraint_to_cids cons items = tiered_matcher cons items"
  by (simp add: match_constraint_to_cids_def tiered_matcher_def Let_def cons_target_def
        cons_csec_def target_tokens_of_def exact_loop_tier token_loop_tier affix_loop_tier)

lemma tier_mem:
  "cid \<in> set (tier test csec items) \<Longrightarrow> \<exists>c. (cid, c) \<in> set items \<and> test c \<and> section_ok csec c"
  by (auto simp: tier_def)

lemma tier_nonempty:
  "(cid, c) \<in> set items \<Longrightarrow> test c \<Longrightarrow> section_ok csec c \<Longrightarrow> tier test csec items \<noteq> []"
  by (auto simp: tier_def filter_empty_conv)

text \<open>
  Claim C7. For every constraint and course map of ASCII texts, the matcher computes the
  tiered matcher of the specification: the normalised constraint text is compared with each
  course's normalised name and code, first for equality, then token by token for containment
  either way, then as a prefix or suffix of the name or code; the first tier with a
  candidate is the result, and every tier keeps only courses that pass the section filter
  (the filter \<open>ALL\<close> passes every course). In particular, when some course of the map equals
  the non-empty constraint text in name or code and passes the section filter, the result is
  the exact tier: it contains that course, and every identifier in it belongs to a course
  that matches exactly and passes the filter.
\<close>

theorem matcher_three_tiers:
  assumes "ascii_constraint cons" and "list_all (\<lambda>(cid, c). ascii_course c) items"
  shows "match_constraint_to_cids cons items = tiered_matcher cons items \<and>
         ((cid, c) \<in> set items \<longrightarrow> cons_target cons \<noteq> [] \<longrightarrow>
          exact_match (cons_target cons) c \<longrightarrow> section_ok (cons_csec cons) c \<longrightarrow>
            match_constraint_to_cids cons items
              = tier (exact_match (cons_target cons)) (cons_csec cons) items \<and>
            cid \<in> set (match_constraint_to_cids cons items) \<and>
            (\<forall>k \<in> set (match_constraint_to_cids cons items).
               \<exists>c'. (k, c') \<in> set items \<and> exact_match (cons_target cons) c' \<and>
                    section_ok (cons_csec cons) c'))"
proof -
  have a: "match_constraint_to_cids cons items = tiered_matcher cons items"
    by (rule match_is_tiered)
  have b: "match_constraint_to_cids cons items
              = tier (exact_match (cons_target cons)) (cons_csec cons) items \<and>
            cid \<in> set (match_constraint_to_cids cons items) \<and>
            (\<forall>k \<in> set (match_constraint_to_cids cons items).
               \<exists>c'. (k, c') \<in> set items \<and> exact_match (cons_target cons) c' \<and>
                    section_ok (cons_csec cons) c')"
    if h: "(cid, c) \<in> set items" "cons_target cons \<noteq> []"
          "exact_match (cons_target cons) c" "section_ok (cons_csec cons) c"
  proof -
    from tier_nonempty[of cid c items "exact_match (cons_target cons)" "cons_csec cons", OF h(1,3,4)] h(2)
    have e: "match_constraint_to_cids cons items
               = tier (exact_match (cons_target cons)) (cons_csec cons) items"
      by (simp add: a tiered_matcher_def)
    from h(1,3,4) have "cid \<in> set (tier (exact_match (cons_target cons)) (cons_csec cons) items)"
      by (force simp: tier_def)
    with e tier_mem show ?thesis by (metis (no_types, lifting))
  qed
  from a b show ?thesis by blast
qed

theorem matcher_three_tiers_witness:
  "ascii_constraint
     \<lparr>cons_course_name = Some '' math '', cons_section = None, cons_day = Some ''Monday'', cons_period_range = Some ''P1'', cons_periods = None, cons_type = Some ''Hard'', cons_mode = None\<rparr> \<and>
   list_all (\<lambda>(cid, c). ascii_course c)
     [(1, \<lparr>course_id = Some 1, course_name = Some ''Math'', course_code = None, course_credits = None, course_section = None, course_teacher_id = None\<rparr>),
      (2, \<lparr>course_id = Some 2, course_name = Some ''Mathematics'', course_code = None, course_credits = None, course_section = None, course_teacher_id = None\<rparr>)] \<and>
   cons_target
     \<lparr>cons_course_name = Some '' math '', cons_section = None, cons_day = Some ''Monday'', cons_period_range = Some ''P1'', cons_periods = None, cons_type = Some ''Hard'', cons_mode = None\<rparr> = ''math'' \<and>
   tier (token_match [''math'']) ''ALL''
     [(1, \<lparr>course_id = Some 1, course_name = Some ''Math'', course_code = None, course_credits = None, course_section = None, course_teacher_id = None\<rparr>),
      (2, \<lparr>course_id = Some 2, course_name = Some ''Mathematics'', course_code = None, course_credits = None, course_section = None, course_teacher_id = None\<rparr>)] = [1, 2] \<and>
   match_constraint_to_cids
     \<lparr>cons_course_name = Some '' math '', cons_section = None, cons_day = Some ''Monday'', cons_period_range = Some ''P1'', cons_periods = None, cons_type = Some ''Hard'', cons_mode = None\<rparr>
     [(1, \<lparr>course_id = Some 1, course_name = Some ''Math'', course_code = None, course_credits = None, course_section = None, course_teacher_id = None\<rparr>),
      (2, \<lparr>course_id = Some 2, course_name = Some ''Mathematics'', course_code = None, course_credits = None, course_section = None, course_teacher_id = None\<rparr>)] = [1]"
proof -
  let ?c1 = "\<lparr>course_id = Some 1, course_name = Some ''Math'', course_code = None, course_credits = None, course_section = None, course_teacher_id = None\<rparr>"
  let ?c2 = "\<lparr>course_id = Some 2, course_name = Some ''Mathematics'', course_code = None, course_credits = None, course_section = None, course_teacher_id = None\<rparr>"
  let ?k = "\<lparr>cons_course_name = Some '' math '', cons_section = None, cons_day = Some ''Monday'', cons_period_range = Some ''P1'', cons_periods = None, cons_type = Some ''Hard'', cons_mode = None\<rparr>"
  have a: "ascii_constraint ?k" by code_simp
  have b: "list_all (\<lambda>(cid, c). ascii_course c) [(1, ?c1), (2, ?c2)]" by code_simp
  have m: "(1, ?c1) \<in> set [(1, ?c1), (2, ?c2)]" by simp
  have t: "cons_target ?k = ''math''" by code_simp
  have s: "cons_csec ?k = ''ALL''" by code_simp
  have x: "exact_match ''math'' ?c1" by code_simp
  have o: "section_ok ''ALL'' ?c1" by code_simp
  have e: "tier (exact_match ''math'') ''ALL'' [(1, ?c1), (2, ?c2)] = [1]" by code_simp
  have k: "tier (token_match [''math'']) ''ALL'' [(1, ?c1), (2, ?c2)] = [1, 2]" by code_simp
  have tne: "cons_target ?k \<noteq> []" by (simp add: t)
  have x': "exact_match (cons_target ?k) ?c1" using x by (simp add: t)
  have o': "section_ok (cons_csec ?k) ?c1" using o by (simp add: s)
  from matcher_three_tiers[OF a b, of 1 ?c1] m tne x' o'
  have "match_constraint_to_cids ?k [(1, ?c1), (2, ?c2)]
          = tier (exact_match (cons_target ?k)) (cons_csec ?k) [(1, ?c1), (2, ?c2)]"
    by blast
  then have r: "match_constraint_to_cids ?k [(1, ?c1), (2, ?c2)] = [1]"
    by (simp only: t s e)
  from a b t k r show ?thesis by (simp only: simp_thms)
qed

section \<open>C3: what the validator requires of a Hard and of an Exact constraint\<close>







section \<open>The constraint loop of the greedy solver\<close>











section \<open>C4: the cells of an Exact constraint\<close>





end
